theory Spec2Isabelle
  imports Main "HOL-Library.AList" "HOL-Library.Multiset"
begin

section \<open>Shared build state, driver and collaborators\<close>

text \<open>
  The steps of \<^verbatim>\<open>builder/utm/common\<close> work on a \<^verbatim>\<open>multistep.StateBag\<close> (a map
  from string keys to values of any type) and on a \<^verbatim>\<open>Driver\<close>. A step returns
  \<^verbatim>\<open>multistep.ActionContinue\<close> or \<^verbatim>\<open>multistep.ActionHalt\<close>. A Go type assertion on
  a missing or differently typed bag entry (\<^verbatim>\<open>state.Get("vmId").(string)\<close>) panics; the
  model keeps that as the outcome \<open>Panicked\<close>.

  Go strings are byte sequences: \<open>string\<close> (a \<open>char list\<close>) here. An \<^verbatim>\<open>error\<close> is
  represented by its message.
\<close>

datatype action = ActionContinue | ActionHalt

datatype outcome = Returned action | Panicked

datatype val =
    VString string
  | VStrings "string list"
  | VCommands "(string \<times> string list) list"
  | VError string
  | VDriver
  | VUi
  | VOther

text \<open>The fields of \<^verbatim>\<open>commonsteps.StepDownload\<close> that the download step sets.\<close>

record StepDownload =
  Checksum :: string
  Description :: string
  ResultKey :: string
  TargetPath :: string
  Url :: "string list"
  Extension :: string

text \<open>
  Every call that leaves the step is logged: the driver's three methods and the run of the
  SDK's download step.
\<close>

datatype call =
    OsaScript "string list"
  | VersionQuery
  | GuestToolsIsoPathQuery
  | Download StepDownload

text \<open>
  The world a step runs in: the state bag, the keys passed to \<^verbatim>\<open>state.Put\<close> so far (in
  order), and the log of outgoing calls. Messages to \<^verbatim>\<open>ui\<close> and \<^verbatim>\<open>log\<close> are not
  modelled.
\<close>

record world =
  bag :: "string \<rightharpoonup> val"
  written :: "string list"
  calls :: "call list"

text \<open>
  Everything the steps call that is not in the sources under verification is a field of
  the environment: the driver (whose answers may depend on the calls made before), the
  \<^verbatim>\<open>path/filepath\<close> functions, \<^verbatim>\<open>GetControllerEnumCode\<close>, \<^verbatim>\<open>interpolate.Render\<close> (as a
  function of the template and of the \<^verbatim>\<open>Version\<close> field of the template data), the run
  of \<^verbatim>\<open>commonsteps.StepDownload\<close>, and the two mode constants
  \<^verbatim>\<open>GuestAdditionsModeAttach\<close> and \<^verbatim>\<open>GuestAdditionsModeDisable\<close>. A result \<open>Inl e\<close> is
  the error with message \<open>e\<close>; \<open>Inr v\<close> is the value with a nil error.
\<close>

record env =
  osa :: "call list \<Rightarrow> string list \<Rightarrow> string + string"
  driverVersion :: "call list \<Rightarrow> string + string"
  driverGuestToolsIsoPath :: "call list \<Rightarrow> string + string"
  IsAbs :: "string \<Rightarrow> bool"
  Abs :: "string \<Rightarrow> string + string"
  EvalSymlinks :: "string \<Rightarrow> string + string"
  GetControllerEnumCode :: "string \<Rightarrow> string + string"
  Render :: "string \<Rightarrow> string \<Rightarrow> string + string"
  downloadRun :: "StepDownload \<Rightarrow> (string \<rightharpoonup> val) \<Rightarrow> action \<times> (string \<rightharpoonup> val)"
  GuestAdditionsModeAttach :: string
  GuestAdditionsModeDisable :: string

definition Put :: "string \<Rightarrow> val \<Rightarrow> world \<Rightarrow> world" where
  "Put k v w = w\<lparr>bag := (bag w)(k \<mapsto> v), written := written w @ [k]\<rparr>"

definition GetOk :: "world \<Rightarrow> string \<Rightarrow> val option" where
  "GetOk w k = bag w k"

text \<open>\<^verbatim>\<open>state.Get(k).(string)\<close>, \<^verbatim>\<open>state.Get("driver").(Driver)\<close> and
  \<^verbatim>\<open>state.Get("ui").(packersdk.Ui)\<close>: \<open>None\<close> is the panic of the type assertion.\<close>

definition get_string :: "world \<Rightarrow> string \<Rightarrow> string option" where
  "get_string w k = (case bag w k of Some (VString s) \<Rightarrow> Some s | _ \<Rightarrow> None)"

definition get_driver :: "world \<Rightarrow> unit option" where
  "get_driver w = (case bag w ''driver'' of Some VDriver \<Rightarrow> Some () | _ \<Rightarrow> None)"

definition get_ui :: "world \<Rightarrow> unit option" where
  "get_ui w = (case bag w ''ui'' of Some VUi \<Rightarrow> Some () | _ \<Rightarrow> None)"

definition ExecuteOsaScript :: "env \<Rightarrow> string list \<Rightarrow> world \<Rightarrow> (string + string) \<times> world" where
  "ExecuteOsaScript e command w =
     (osa e (calls w) command, w\<lparr>calls := calls w @ [OsaScript command]\<rparr>)"

definition Version :: "env \<Rightarrow> world \<Rightarrow> (string + string) \<times> world" where
  "Version e w = (driverVersion e (calls w), w\<lparr>calls := calls w @ [VersionQuery]\<rparr>)"

definition GuestToolsIsoPath :: "env \<Rightarrow> world \<Rightarrow> (string + string) \<times> world" where
  "GuestToolsIsoPath e w =
     (driverGuestToolsIsoPath e (calls w), w\<lparr>calls := calls w @ [GuestToolsIsoPathQuery]\<rparr>)"

text \<open>\<^verbatim>\<open>strings.Join(elems, sep)\<close>.\<close>

fun Join :: "string list \<Rightarrow> string \<Rightarrow> string" where
  "Join [] sep = []"
| "Join [x] sep = x"
| "Join (x # y # ys) sep = x @ sep @ Join (y # ys) sep"

section \<open>The QEMU-argument configuration step\<close>

record StepConfigureQemuArgs =
  QemuArgs :: "string list list"

definition StepConfigureQemuArgs_Run ::
  "env \<Rightarrow> StepConfigureQemuArgs \<Rightarrow> world \<Rightarrow> outcome \<times> world" where
  "StepConfigureQemuArgs_Run e s w =
     (if length (StepConfigureQemuArgs.QemuArgs s) = 0 then (Returned ActionContinue, w)
      else case get_driver w of None \<Rightarrow> (Panicked, w) | Some _ \<Rightarrow>
        (case get_ui w of None \<Rightarrow> (Panicked, w) | Some _ \<Rightarrow>
        (case get_string w ''vmId'' of None \<Rightarrow> (Panicked, w) | Some vmId \<Rightarrow>
          (let qemuArgStrings = map (\<lambda>args. Join args '' '') (StepConfigureQemuArgs.QemuArgs s);
               addQemuArgsCommand =
                 [''add_qemu_additional_args.applescript'', vmId, ''--args''] @ qemuArgStrings
           in case ExecuteOsaScript e addQemuArgsCommand w of
                (Inl err, w1) \<Rightarrow>
                  (Returned ActionHalt,
                   Put ''error''
                     (VError (''error adding user QEMU additional arguments: '' @ err)) w1)
              | (Inr _, w1) \<Rightarrow>
                  (Returned ActionContinue, Put ''userQemuArgs'' (VStrings qemuArgStrings) w1)))))"

section \<open>Validation of the QEMU arguments\<close>

text \<open>
  \<^verbatim>\<open>strings.TrimSpace\<close> removes leading and trailing runes for which
  \<^verbatim>\<open>unicode.IsSpace\<close> holds, decoding the bytes as UTF-8. An invalid or truncated
  sequence decodes to \<^verbatim>\<open>utf8.RuneError\<close>, which is not a space, so the rune at a position
  is a space exactly when one of the UTF-8 encodings below starts there (and, from the
  right, ends there): tab, line feed, vertical tab, form feed, carriage return, space,
  U+0085, U+00A0, U+1680, U+2000 to U+200A, U+2028, U+2029, U+202F, U+205F, U+3000.
\<close>

definition spaceRunes :: "string list" where
  "spaceRunes =
     [[CHR 0x09], [CHR 0x0A], [CHR 0x0B], [CHR 0x0C], [CHR 0x0D], [CHR 0x20],
      [CHR 0xC2, CHR 0x85], [CHR 0xC2, CHR 0xA0],
      [CHR 0xE1, CHR 0x9A, CHR 0x80],
      [CHR 0xE2, CHR 0x80, CHR 0x80], [CHR 0xE2, CHR 0x80, CHR 0x81],
      [CHR 0xE2, CHR 0x80, CHR 0x82], [CHR 0xE2, CHR 0x80, CHR 0x83],
      [CHR 0xE2, CHR 0x80, CHR 0x84], [CHR 0xE2, CHR 0x80, CHR 0x85],
      [CHR 0xE2, CHR 0x80, CHR 0x86], [CHR 0xE2, CHR 0x80, CHR 0x87],
      [CHR 0xE2, CHR 0x80, CHR 0x88], [CHR 0xE2, CHR 0x80, CHR 0x89],
      [CHR 0xE2, CHR 0x80, CHR 0x8A],
      [CHR 0xE2, CHR 0x80, CHR 0xA8], [CHR 0xE2, CHR 0x80, CHR 0xA9],
      [CHR 0xE2, CHR 0x80, CHR 0xAF],
      [CHR 0xE2, CHR 0x81, CHR 0x9F],
      [CHR 0xE3, CHR 0x80, CHR 0x80]]"

definition leadingSpace :: "string \<Rightarrow> string option" where
  "leadingSpace s = find (\<lambda>r. take (length r) s = r) spaceRunes"

definition trailingSpace :: "string \<Rightarrow> string option" where
  "trailingSpace s = find (\<lambda>r. take (length r) (rev s) = rev r) spaceRunes"

lemma spaceRunes_nonempty: "r \<in> set spaceRunes \<Longrightarrow> r \<noteq> []"
  by (auto simp: spaceRunes_def)

lemma leadingSpace_SomeD:
  "leadingSpace s = Some r \<Longrightarrow> r \<in> set spaceRunes \<and> take (length r) s = r"
  unfolding leadingSpace_def by (auto simp: find_Some_iff)

lemma trailingSpace_SomeD:
  "trailingSpace s = Some r \<Longrightarrow> r \<in> set spaceRunes \<and> take (length r) (rev s) = rev r"
  unfolding trailingSpace_def by (auto simp: find_Some_iff)

function TrimLeftSpace :: "string \<Rightarrow> string" where
  "TrimLeftSpace s =
     (case leadingSpace s of None \<Rightarrow> s | Some r \<Rightarrow> TrimLeftSpace (drop (length r) s))"
  by pat_completeness auto
termination TrimLeftSpace
proof (relation "measure length")
  show "wf (measure length)" by simp
next
  fix s r assume "leadingSpace s = Some r"
  then have r: "r \<noteq> []" and t: "take (length r) s = r"
    using leadingSpace_SomeD spaceRunes_nonempty by blast+
  from t r have "s \<noteq> []" by auto
  with r show "(drop (length r) s, s) \<in> measure length" by simp
qed

function TrimRightSpace :: "string \<Rightarrow> string" where
  "TrimRightSpace s =
     (case trailingSpace s of None \<Rightarrow> s
      | Some r \<Rightarrow> TrimRightSpace (take (length s - length r) s))"
  by pat_completeness auto
termination TrimRightSpace
proof (relation "measure length")
  show "wf (measure length)" by simp
next
  fix s r assume "trailingSpace s = Some r"
  then have r: "r \<noteq> []" and t: "take (length r) (rev s) = rev r"
    using trailingSpace_SomeD spaceRunes_nonempty by blast+
  from t r have "s \<noteq> []" by auto
  with r show "(take (length s - length r) s, s) \<in> measure length" by simp
qed

declare TrimLeftSpace.simps [simp del] TrimRightSpace.simps [simp del]

definition TrimSpace :: "string \<Rightarrow> string" where
  "TrimSpace s = TrimRightSpace (TrimLeftSpace s)"

text \<open>A string made of whitespace runes only.\<close>

inductive allSpace :: "string \<Rightarrow> bool" where
  allSpace_Nil: "allSpace []"
| allSpace_Cons: "r \<in> set spaceRunes \<Longrightarrow> allSpace s \<Longrightarrow> allSpace (r @ s)"

record QemuConfig =
  QemuArgs :: "string list list"

datatype prepare_error =
    EmptyArgumentList nat
  | ResolvesToEmptyString nat

text \<open>The loop of \<^verbatim>\<open>QemuConfig.Prepare\<close>, from index \<open>i\<close> on.\<close>

fun prepare_loop :: "nat \<Rightarrow> string list list \<Rightarrow> prepare_error list \<Rightarrow> prepare_error list" where
  "prepare_loop i [] errs = errs"
| "prepare_loop i (args # rest) errs =
     (if length args = 0 then prepare_loop (Suc i) rest (errs @ [EmptyArgumentList i])
      else let joined = Join args '' '' in
        if TrimSpace joined = '''' then
          prepare_loop (Suc i) rest (errs @ [ResolvesToEmptyString i])
        else prepare_loop (Suc i) rest errs)"

definition Prepare :: "QemuConfig \<Rightarrow> prepare_error list" where
  "Prepare c = prepare_loop 0 (QemuConfig.QemuArgs c) []"

fun error_index :: "prepare_error \<Rightarrow> nat" where
  "error_index (EmptyArgumentList i) = i"
| "error_index (ResolvesToEmptyString i) = i"

text \<open>The length of a UTF-8 sequence, from its first byte (for the first bytes of
  \<open>spaceRunes\<close>).\<close>

definition runeLen :: "char \<Rightarrow> nat" where
  "runeLen c =
     (if c = CHR 0xC2 then 2 else if c \<in> {CHR 0xE1, CHR 0xE2, CHR 0xE3} then 3 else 1)"

section \<open>Example inputs\<close>

text \<open>A driver that answers every script with a drive identifier, a file system in which
  every path is its own target, and a state bag as the builder prepares it.\<close>

definition example_env :: env where
  "example_env =
     \<lparr>osa = (\<lambda>h c. Inr ''7C5E9A2B-03F1-4D6A-8B1E-5A4F0C9D2E17''),
      driverVersion = (\<lambda>h. Inr ''4.6.4''),
      driverGuestToolsIsoPath = (\<lambda>h. Inr ''/Library/UTM/utm-guest-tools-latest.iso''),
      IsAbs = (\<lambda>p. take 1 p = ''/''),
      Abs = (\<lambda>p. Inr (''/build/'' @ p)),
      EvalSymlinks = (\<lambda>p. Inr p),
      GetControllerEnumCode = (\<lambda>n. if n = [] then Inl ''invalid controller'' else Inr n),
      Render = (\<lambda>t v. Inr t),
      downloadRun = (\<lambda>d b. (ActionContinue, b(ResultKey d \<mapsto> VString (TargetPath d)))),
      GuestAdditionsModeAttach = ''attach'',
      GuestAdditionsModeDisable = ''disable''\<rparr>"

definition example_world :: world where
  "example_world =
     \<lparr>bag = [''driver'' \<mapsto> VDriver, ''ui'' \<mapsto> VUi, ''vmId'' \<mapsto> VString ''test-vm-id''],
      written = [], calls = []\<rparr>"

definition example_qemu_step :: StepConfigureQemuArgs where
  "example_qemu_step =
     \<lparr>StepConfigureQemuArgs.QemuArgs = [[''-accel'', ''hvf''], [''-cpu'', ''host'']]\<rparr>"

definition example_qemu_config :: QemuConfig where
  "example_qemu_config =
     \<lparr>QemuConfig.QemuArgs = [[''-accel'', ''hvf''], [], ['' '', ''  ''], [''-cpu'', ''host'']]\<rparr>"

section \<open>Properties of the QEMU-argument configuration step\<close>

text \<open>
  C7. For a non-empty list of argument groups (and a state bag holding the driver, the ui
  and the VM identifier), the step makes exactly one driver call: the script
  \<^verbatim>\<open>add_qemu_additional_args.applescript\<close>, the VM identifier, \<^verbatim>\<open>--args\<close>, and then each
  group's tokens joined by single spaces, one string per group, in the order of the groups.
  When the driver call succeeds the step continues and the same list of joined strings is
  stored under \<^verbatim>\<open>userQemuArgs\<close>.
\<close>

theorem configure_qemu_args_passes_joined_groups:
  assumes "StepConfigureQemuArgs.QemuArgs s \<noteq> []"
    and "bag w ''driver'' = Some VDriver"
    and "bag w ''ui'' = Some VUi"
    and "bag w ''vmId'' = Some (VString vmId)"
  shows "calls (snd (StepConfigureQemuArgs_Run e s w)) =
           calls w @ [OsaScript ([''add_qemu_additional_args.applescript'', vmId, ''--args'']
                        @ map (\<lambda>args. Join args '' '') (StepConfigureQemuArgs.QemuArgs s))]
         \<and> (\<forall>out. osa e (calls w)
                 ([''add_qemu_additional_args.applescript'', vmId, ''--args'']
                    @ map (\<lambda>args. Join args '' '') (StepConfigureQemuArgs.QemuArgs s)) = Inr out
              \<longrightarrow> fst (StepConfigureQemuArgs_Run e s w) = Returned ActionContinue
                \<and> bag (snd (StepConfigureQemuArgs_Run e s w)) ''userQemuArgs'' =
                    Some (VStrings (map (\<lambda>args. Join args '' '') (StepConfigureQemuArgs.QemuArgs s))))"
  using assms
  by (auto simp: StepConfigureQemuArgs_Run_def get_driver_def get_ui_def get_string_def
        ExecuteOsaScript_def Put_def Let_def split: sum.splits)

theorem configure_qemu_args_passes_joined_groups_witness:
  "calls (snd (StepConfigureQemuArgs_Run example_env example_qemu_step example_world)) =
     [OsaScript [''add_qemu_additional_args.applescript'', ''test-vm-id'', ''--args'',
                 ''-accel hvf'', ''-cpu host'']]
   \<and> fst (StepConfigureQemuArgs_Run example_env example_qemu_step example_world) =
       Returned ActionContinue
   \<and> bag (snd (StepConfigureQemuArgs_Run example_env example_qemu_step example_world))
       ''userQemuArgs'' = Some (VStrings [''-accel hvf'', ''-cpu host''])"
proof -
  have a: "StepConfigureQemuArgs.QemuArgs example_qemu_step \<noteq> []"
    by (simp add: example_qemu_step_def)
  have b: "bag example_world ''driver'' = Some VDriver"
    by (simp add: example_world_def)
  have c: "bag example_world ''ui'' = Some VUi"
    by (simp add: example_world_def)
  have d: "bag example_world ''vmId'' = Some (VString ''test-vm-id'')"
    by (simp add: example_world_def)
  show ?thesis
    using configure_qemu_args_passes_joined_groups [OF a b c d, of example_env]
    by (simp add: example_qemu_step_def example_world_def example_env_def)
qed

text \<open>
  C8. For an empty list of argument groups the step returns continue and leaves the world
  as it found it: no driver call, and nothing put into the state bag (neither \<^verbatim>\<open>error\<close>
  nor \<^verbatim>\<open>userQemuArgs\<close>). This holds even for a state bag without driver, ui or VM
  identifier.
\<close>

theorem configure_qemu_args_empty_is_noop:
  "StepConfigureQemuArgs.QemuArgs s = [] \<Longrightarrow>
     StepConfigureQemuArgs_Run e s w = (Returned ActionContinue, w)"
  by (simp add: StepConfigureQemuArgs_Run_def)

theorem configure_qemu_args_empty_is_noop_witness:
  "StepConfigureQemuArgs.QemuArgs \<lparr>StepConfigureQemuArgs.QemuArgs = []\<rparr> = []
   \<and> StepConfigureQemuArgs_Run example_env \<lparr>StepConfigureQemuArgs.QemuArgs = []\<rparr>
        \<lparr>bag = Map.empty, written = [], calls = []\<rparr>
      = (Returned ActionContinue, \<lparr>bag = Map.empty, written = [], calls = []\<rparr>)"
  using configure_qemu_args_empty_is_noop
          [of "\<lparr>StepConfigureQemuArgs.QemuArgs = []\<rparr>" example_env
              "\<lparr>bag = Map.empty, written = [], calls = []\<rparr>"]
  by simp

section \<open>Properties of the validation\<close>

lemma TrimLeftSpace_None: "leadingSpace s = None \<Longrightarrow> TrimLeftSpace s = s"
  by (subst TrimLeftSpace.simps) simp

lemma TrimLeftSpace_Some:
  "leadingSpace s = Some r \<Longrightarrow> TrimLeftSpace s = TrimLeftSpace (drop (length r) s)"
  by (subst TrimLeftSpace.simps) simp

lemma TrimRightSpace_None: "trailingSpace s = None \<Longrightarrow> TrimRightSpace s = s"
  by (subst TrimRightSpace.simps) simp

lemma TrimRightSpace_Some:
  "trailingSpace s = Some r \<Longrightarrow>
     TrimRightSpace s = TrimRightSpace (take (length s - length r) s)"
  by (subst TrimRightSpace.simps) simp

lemma leadingSpace_Nil: "leadingSpace [] = None"
  by (simp add: leadingSpace_def spaceRunes_def)

lemma trailingSpace_Nil: "trailingSpace [] = None"
  by (simp add: trailingSpace_def spaceRunes_def)

lemma spaceRunes_length: "\<forall>r\<in>set spaceRunes. length r = runeLen (hd r)"
  by (simp add: spaceRunes_def runeLen_def)

text \<open>No whitespace encoding is a proper prefix of another: the first byte fixes the
  length.\<close>

lemma spaceRunes_prefix_unique:
  assumes r: "r \<in> set spaceRunes" and r': "r' \<in> set spaceRunes"
    and t: "take (length r') (r @ s) = r'"
  shows "r' = r"
proof -
  from r r' have ne: "r \<noteq> []" "r' \<noteq> []" by (auto dest: spaceRunes_nonempty)
  from t ne have "hd r' = hd (take (length r') (r @ s))" by simp
  also from ne have "\<dots> = hd r" by (cases r; cases r') auto
  finally have "runeLen (hd r') = runeLen (hd r)" by simp
  with r r' spaceRunes_length have "length r' = length r" by metis
  with t show ?thesis by simp
qed

lemma allSpace_append: "allSpace a \<Longrightarrow> allSpace b \<Longrightarrow> allSpace (a @ b)"
  by (induction rule: allSpace.induct) (auto intro: allSpace.intros)

lemma leadingSpace_prefix:
  assumes "r \<in> set spaceRunes"
  shows "leadingSpace (r @ s) = Some r"
proof (cases "leadingSpace (r @ s)")
  case None
  with assms show ?thesis by (auto simp: leadingSpace_def find_None_iff)
next
  case (Some x)
  from leadingSpace_SomeD[OF Some] assms have "x = r"
    using spaceRunes_prefix_unique by blast
  with Some show ?thesis by simp
qed

lemma allSpace_TrimLeft: "allSpace s \<Longrightarrow> TrimLeftSpace s = []"
proof (induction rule: allSpace.induct)
  case allSpace_Nil
  show ?case by (simp add: TrimLeftSpace_None leadingSpace_Nil)
next
  case (allSpace_Cons r s)
  then show ?case
    by (simp add: TrimLeftSpace_Some[OF leadingSpace_prefix])
qed

lemma TrimLeft_allSpace: "TrimLeftSpace s = [] \<Longrightarrow> allSpace s"
proof (induction s rule: TrimLeftSpace.induct)
  case (1 s)
  show ?case
  proof (cases "leadingSpace s")
    case None
    with "1.prems" have "s = []" by (simp add: TrimLeftSpace_None)
    then show ?thesis by (simp add: allSpace.intros)
  next
    case (Some r)
    with "1.prems" have "TrimLeftSpace (drop (length r) s) = []"
      by (simp add: TrimLeftSpace_Some)
    with "1.IH"[OF Some] have a: "allSpace (drop (length r) s)" .
    from leadingSpace_SomeD[OF Some]
    have r: "r \<in> set spaceRunes" and t: "take (length r) s = r" by auto
    have "s = r @ drop (length r) s" using t by (metis append_take_drop_id)
    with allSpace_Cons[OF r a] show ?thesis by simp
  qed
qed

lemma TrimRight_allSpace: "TrimRightSpace s = [] \<Longrightarrow> allSpace s"
proof (induction s rule: TrimRightSpace.induct)
  case (1 s)
  show ?case
  proof (cases "trailingSpace s")
    case None
    with "1.prems" have "s = []" by (simp add: TrimRightSpace_None)
    then show ?thesis by (simp add: allSpace.intros)
  next
    case (Some r)
    with "1.prems" have "TrimRightSpace (take (length s - length r) s) = []"
      by (simp add: TrimRightSpace_Some)
    with "1.IH"[OF Some] have a: "allSpace (take (length s - length r) s)" .
    from trailingSpace_SomeD[OF Some]
    have r: "r \<in> set spaceRunes" and t: "take (length r) (rev s) = rev r" by auto
    from t have "rev (take (length r) (rev s)) = r" by simp
    then have "drop (length s - length r) s = r" by (simp add: rev_take)
    then have "s = take (length s - length r) s @ r" by (metis append_take_drop_id)
    moreover have "allSpace r" using allSpace_Cons[OF r allSpace_Nil] by simp
    ultimately show ?thesis using allSpace_append[OF a] by metis
  qed
qed

lemma TrimLeft_no_leading: "leadingSpace (TrimLeftSpace s) = None"
proof (induction s rule: TrimLeftSpace.induct)
  case (1 s)
  show ?case
    by (cases "leadingSpace s")
       (use 1 in \<open>simp_all add: TrimLeftSpace_None TrimLeftSpace_Some\<close>)
qed

lemma allSpace_leading: "allSpace s \<Longrightarrow> s \<noteq> [] \<Longrightarrow> leadingSpace s \<noteq> None"
  by (induction rule: allSpace.induct) (auto simp: leadingSpace_prefix)

text \<open>Trimming leaves nothing exactly when the string consists of whitespace runes.\<close>

lemma TrimSpace_empty_iff: "TrimSpace s = [] \<longleftrightarrow> allSpace s"
proof
  assume "TrimSpace s = []"
  then have "allSpace (TrimLeftSpace s)"
    unfolding TrimSpace_def by (rule TrimRight_allSpace)
  then have "TrimLeftSpace s = []"
    using TrimLeft_no_leading allSpace_leading by blast
  then show "allSpace s" by (rule TrimLeft_allSpace)
next
  assume "allSpace s"
  then have "TrimLeftSpace s = []" by (rule allSpace_TrimLeft)
  then show "TrimSpace s = []"
    by (simp add: TrimSpace_def TrimRightSpace_None trailingSpace_Nil)
qed

lemma prepare_loop_indices:
  "map error_index (prepare_loop i gs errs) =
     map error_index errs
     @ map fst (filter (\<lambda>(j, args). args = [] \<or> TrimSpace (Join args '' '') = [])
                  (enumerate i gs))"
  by (induction gs arbitrary: i errs) (simp_all add: Let_def)

lemma prepare_loop_length:
  "length (prepare_loop i gs errs) =
     length errs + length (filter (\<lambda>args. args = [] \<or> TrimSpace (Join args '' '') = []) gs)"
  by (induction gs arbitrary: i errs) (simp_all add: Let_def)

text \<open>
  C10. \<^verbatim>\<open>QemuConfig.Prepare\<close> returns one error for each argument group that is empty or
  whose space-joined tokens trim to the empty string, and no other error: the number of
  errors is the number of such groups, and the errors carry the indices of these groups,
  in order. The error list is empty exactly when every group is non-empty and its joined
  string does not consist of whitespace runes only. An empty (or nil) outer list gives no
  errors.
\<close>

theorem Prepare_one_error_per_rejected_group:
  "length (Prepare c) =
     length (filter (\<lambda>args. args = [] \<or> TrimSpace (Join args '' '') = [])
               (QemuConfig.QemuArgs c))
   \<and> map error_index (Prepare c) =
       map fst (filter (\<lambda>(i, args). args = [] \<or> TrimSpace (Join args '' '') = [])
                  (enumerate 0 (QemuConfig.QemuArgs c)))
   \<and> (Prepare c = [] \<longleftrightarrow>
        (\<forall>args \<in> set (QemuConfig.QemuArgs c). args \<noteq> [] \<and> \<not> allSpace (Join args '' '')))
   \<and> (QemuConfig.QemuArgs c = [] \<longrightarrow> Prepare c = [])"
proof -
  have len: "length (Prepare c) =
     length (filter (\<lambda>args. args = [] \<or> TrimSpace (Join args '' '') = [])
               (QemuConfig.QemuArgs c))"
    by (simp add: Prepare_def prepare_loop_length)
  have idx: "map error_index (Prepare c) =
       map fst (filter (\<lambda>(i, args). args = [] \<or> TrimSpace (Join args '' '') = [])
                  (enumerate 0 (QemuConfig.QemuArgs c)))"
    by (simp add: Prepare_def prepare_loop_indices)
  have "Prepare c = [] \<longleftrightarrow> length (Prepare c) = 0" by simp
  also have "\<dots> \<longleftrightarrow>
      filter (\<lambda>args. args = [] \<or> TrimSpace (Join args '' '') = []) (QemuConfig.QemuArgs c) = []"
    by (simp only: len length_0_conv)
  also have "\<dots> \<longleftrightarrow>
      (\<forall>args \<in> set (QemuConfig.QemuArgs c). args \<noteq> [] \<and> \<not> allSpace (Join args '' ''))"
    by (simp add: filter_empty_conv TrimSpace_empty_iff)
  finally have none: "Prepare c = [] \<longleftrightarrow>
      (\<forall>args \<in> set (QemuConfig.QemuArgs c). args \<noteq> [] \<and> \<not> allSpace (Join args '' ''))" .
  have nil: "QemuConfig.QemuArgs c = [] \<longrightarrow> Prepare c = []"
    by (simp add: Prepare_def)
  from len idx none nil show ?thesis by blast
qed

theorem Prepare_one_error_per_rejected_group_witness:
  "length (Prepare example_qemu_config) = 2
   \<and> map error_index (Prepare example_qemu_config) = [1, 2]
   \<and> Prepare example_qemu_config \<noteq> []
   \<and> Prepare \<lparr>QemuConfig.QemuArgs = [[''-accel'', ''hvf''], [''-cpu'', ''host'']]\<rparr> = []
   \<and> Prepare \<lparr>QemuConfig.QemuArgs = []\<rparr> = []"
proof -
  have t1: "TrimSpace (Join [''-accel'', ''hvf''] '' '') = ''-accel hvf''" by code_simp
  have t2: "TrimSpace (Join ['' '', ''  ''] '' '') = []" by code_simp
  have t3: "TrimSpace (Join [''-cpu'', ''host''] '' '') = ''-cpu host''" by code_simp
  have ok: "\<forall>args \<in> set [[''-accel'', ''hvf''], [''-cpu'', ''host'']].
              args \<noteq> [] \<and> \<not> allSpace (Join args '' '')"
    using t1 t3 TrimSpace_empty_iff [of "Join [''-accel'', ''hvf''] '' ''"]
      TrimSpace_empty_iff [of "Join [''-cpu'', ''host''] '' ''"]
    by simp
  have a: "length (Prepare example_qemu_config) = 2
           \<and> map error_index (Prepare example_qemu_config) = [1, 2]"
    using Prepare_one_error_per_rejected_group [of example_qemu_config] t1 t2 t3
    by (simp add: example_qemu_config_def)
  then have b: "Prepare example_qemu_config \<noteq> []" by auto
  have c: "Prepare \<lparr>QemuConfig.QemuArgs = [[''-accel'', ''hvf''], [''-cpu'', ''host'']]\<rparr> = []"
    using Prepare_one_error_per_rejected_group
            [of "\<lparr>QemuConfig.QemuArgs = [[''-accel'', ''hvf''], [''-cpu'', ''host'']]\<rparr>"] ok
    by simp
  have d: "Prepare \<lparr>QemuConfig.QemuArgs = []\<rparr> = []"
    using Prepare_one_error_per_rejected_group [of "\<lparr>QemuConfig.QemuArgs = []\<rparr>"]
    by simp
  from a b c d show ?thesis by blast
qed

section \<open>The guest-additions download step\<close>

text \<open>\<^verbatim>\<open>additionsVersionMap\<close>: UTM version to guest additions version.\<close>

definition additionsVersionMap :: "(string \<times> string) list" where
  "additionsVersionMap = [(''4.6.4'', ''0.229.2'')]"

text \<open>The step's configuration. The field \<^verbatim>\<open>Ctx\<close> (the interpolation context) is part of
  \<open>Render\<close> in the environment.\<close>

record StepDownloadGuestAdditions =
  GuestAdditionsMode :: string
  GuestAdditionsURL :: string
  GuestAdditionsSHA256 :: string
  GuestAdditionsTargetPath :: string

definition couldnt_detect_url :: string where
  "couldnt_detect_url =
     ''couldn't detect guest additions URL.'' @ [CHR 0x0A]
     @ ''Please specify `guest_additions_url` manually''"

text \<open>The delegation \<^verbatim>\<open>downStep.Run(ctx, state)\<close>: the download is logged and its effect on
  the state bag is the environment's. What the SDK's step puts into the state bag is part
  of that effect and is not added to \<open>written\<close>, which lists the puts of the step under
  verification.\<close>

definition runDownload :: "env \<Rightarrow> StepDownload \<Rightarrow> world \<Rightarrow> outcome \<times> world" where
  "runDownload e downStep w =
     (case downloadRun e downStep (bag w) of
        (a, b) \<Rightarrow> (Returned a, w\<lparr>bag := b, calls := calls w @ [Download downStep]\<rparr>))"

definition StepDownloadGuestAdditions_Run ::
  "env \<Rightarrow> StepDownloadGuestAdditions \<Rightarrow> world \<Rightarrow> outcome \<times> world" where
  "StepDownloadGuestAdditions_Run e s w =
     (case get_driver w of None \<Rightarrow> (Panicked, w) | Some _ \<Rightarrow>
     (case get_ui w of None \<Rightarrow> (Panicked, w) | Some _ \<Rightarrow>
       if StepDownloadGuestAdditions.GuestAdditionsMode s = GuestAdditionsModeDisable e
       then (Returned ActionContinue, w)
       else
         (case Version e w of
            (Inl err, w1) \<Rightarrow>
              (Returned ActionHalt,
               Put ''error''
                 (VError (''error reading version for guest additions download: '' @ err)) w1)
          | (Inr reported, w1) \<Rightarrow>
              (let version = (case map_of additionsVersionMap reported of
                                Some newVersion \<Rightarrow> newVersion | None \<Rightarrow> reported);
                   additionsName = ''utm-guest-tools-'' @ ''latest'' @ ''.iso''
               in case Render e (GuestAdditionsURL s) version of
                    Inl err \<Rightarrow>
                      (Returned ActionHalt,
                       Put ''error''
                         (VError (''error preparing guest additions url: '' @ err)) w1)
                  | Inr rendered \<Rightarrow>
                      (case (if rendered = []
                             then (case GuestToolsIsoPath e w1 of
                                     (Inr path, w2) \<Rightarrow> (path, ''none'', w2)
                                   | (Inl err, w2) \<Rightarrow>
                                       (''https://getutm.app/downloads/'' @ additionsName,
                                        ''sha256'', w2))
                             else (rendered, ''sha256'', w1)) of
                         (url, checksumType0, w2) \<Rightarrow>
                           if url = [] then
                             (Returned ActionHalt, Put ''error'' (VError couldnt_detect_url) w2)
                           else
                             (case (if checksumType0 \<noteq> ''none''
                                    then (if GuestAdditionsSHA256 s \<noteq> []
                                          then (GuestAdditionsSHA256 s, checksumType0)
                                          else ([], ''none''))
                                    else ([], checksumType0)) of
                                (checksum, checksumType) \<Rightarrow>
                                  (let checksumWithType =
                                         (if checksumType \<noteq> ''none'' \<and> checksum \<noteq> []
                                          then checksumType @ '':'' @ checksum
                                          else checksum);
                                       downStep =
                                         \<lparr>Checksum = checksumWithType,
                                          Description = ''Guest additions'',
                                          ResultKey = ''guest_additions_path'',
                                          TargetPath = GuestAdditionsTargetPath s,
                                          Url = [url],
                                          Extension = ''iso''\<rparr>
                                   in runDownload e downStep w2)))))))"

definition example_download_step :: StepDownloadGuestAdditions where
  "example_download_step =
     \<lparr>GuestAdditionsMode = ''attach'', GuestAdditionsURL = [],
      GuestAdditionsSHA256 = ''0f3a'', GuestAdditionsTargetPath = ''/cache/tools.iso''\<rparr>"

section \<open>Properties of the guest-additions download step\<close>

text \<open>
  C9. With the mode equal to \<^verbatim>\<open>GuestAdditionsModeDisable\<close> the run leaves the world as it
  found it: no driver call (in particular no version query), no download, and an unchanged
  state bag. With the driver and the ui in the state bag it returns continue (without
  them the type assertions at the start of \<^verbatim>\<open>Run\<close> panic, still with no call made).
\<close>

theorem download_disabled_is_noop:
  assumes "StepDownloadGuestAdditions.GuestAdditionsMode s = GuestAdditionsModeDisable e"
  shows "snd (StepDownloadGuestAdditions_Run e s w) = w
         \<and> (bag w ''driver'' = Some VDriver \<and> bag w ''ui'' = Some VUi
              \<longrightarrow> StepDownloadGuestAdditions_Run e s w = (Returned ActionContinue, w))"
  using assms
  by (auto simp: StepDownloadGuestAdditions_Run_def get_driver_def get_ui_def
           split: option.splits val.splits)

theorem download_disabled_is_noop_witness:
  "StepDownloadGuestAdditions_Run example_env
     (example_download_step\<lparr>GuestAdditionsMode := ''disable''\<rparr>) example_world
   = (Returned ActionContinue, example_world)
   \<and> calls example_world = []"
proof -
  have m: "StepDownloadGuestAdditions.GuestAdditionsMode
             (example_download_step\<lparr>GuestAdditionsMode := ''disable''\<rparr>)
           = GuestAdditionsModeDisable example_env"
    by (simp add: example_env_def)
  have b: "bag example_world ''driver'' = Some VDriver \<and> bag example_world ''ui'' = Some VUi"
    by (simp add: example_world_def)
  show ?thesis
    using download_disabled_is_noop [OF m, of example_world] b
    by (simp add: example_world_def)
qed

text \<open>
  C5. Let the mode be other than \<^verbatim>\<open>GuestAdditionsModeDisable\<close>, the version query succeed
  and the URL template render to \<open>rendered\<close>. When \<open>rendered\<close> is empty the step asks the
  driver for the guest-tools path, right after the version query; when it is not, the
  driver is not asked. When that call fails, the download is run on
  \<^verbatim>\<open>https://getutm.app/downloads/utm-guest-tools-latest.iso\<close>. The step halts with the
  error "couldn't detect guest additions URL." (new line) "Please specify
  `guest_additions_url` manually" put by the step itself exactly when \<open>rendered\<close> is empty
  and the driver's call succeeded with an empty path; the step puts nothing into the state
  bag in any other case, and in that case it makes no call after the driver's.
\<close>

theorem download_url_fallback_chain:
  assumes "bag w ''driver'' = Some VDriver" and "bag w ''ui'' = Some VUi"
    and "StepDownloadGuestAdditions.GuestAdditionsMode s \<noteq> GuestAdditionsModeDisable e"
    and "driverVersion e (calls w) = Inr reported"
    and "Render e (GuestAdditionsURL s)
           (case map_of additionsVersionMap reported of Some v \<Rightarrow> v | None \<Rightarrow> reported)
         = Inr rendered"
  shows "(rendered = [] \<longrightarrow>
            take (length (calls w) + 2) (calls (snd (StepDownloadGuestAdditions_Run e s w)))
              = calls w @ [VersionQuery, GuestToolsIsoPathQuery])
         \<and> (rendered \<noteq> [] \<longrightarrow>
              GuestToolsIsoPathQuery
                \<notin> set (drop (length (calls w)) (calls (snd (StepDownloadGuestAdditions_Run e s w)))))
         \<and> (rendered = [] \<and> (\<exists>err. driverGuestToolsIsoPath e (calls w @ [VersionQuery]) = Inl err)
              \<longrightarrow> (\<exists>d. calls (snd (StepDownloadGuestAdditions_Run e s w))
                         = calls w @ [VersionQuery, GuestToolsIsoPathQuery, Download d]
                       \<and> Url d = [''https://getutm.app/downloads/utm-guest-tools-latest.iso'']))
         \<and> (fst (StepDownloadGuestAdditions_Run e s w) = Returned ActionHalt
              \<and> written (snd (StepDownloadGuestAdditions_Run e s w)) = written w @ [''error'']
              \<and> bag (snd (StepDownloadGuestAdditions_Run e s w)) ''error''
                  = Some (VError (''couldn't detect guest additions URL.'' @ [CHR 0x0A]
                                  @ ''Please specify `guest_additions_url` manually''))
              \<longleftrightarrow> rendered = [] \<and> driverGuestToolsIsoPath e (calls w @ [VersionQuery]) = Inr [])
         \<and> (written (snd (StepDownloadGuestAdditions_Run e s w)) \<noteq> written w
              \<longleftrightarrow> rendered = [] \<and> driverGuestToolsIsoPath e (calls w @ [VersionQuery]) = Inr [])
         \<and> (rendered = [] \<and> driverGuestToolsIsoPath e (calls w @ [VersionQuery]) = Inr []
              \<longrightarrow> calls (snd (StepDownloadGuestAdditions_Run e s w))
                    = calls w @ [VersionQuery, GuestToolsIsoPathQuery])"
proof (cases "rendered = []")
  case False
  with assms show ?thesis
    by (simp add: StepDownloadGuestAdditions_Run_def get_driver_def get_ui_def Version_def
          runDownload_def Put_def Let_def split: prod.splits)
next
  case True
  show ?thesis
  proof (cases "driverGuestToolsIsoPath e (calls w @ [VersionQuery])")
    case (Inl err)
    with True assms show ?thesis
      by (simp add: StepDownloadGuestAdditions_Run_def get_driver_def get_ui_def Version_def
            GuestToolsIsoPath_def runDownload_def Put_def Let_def split: prod.splits)
  next
    case (Inr path)
    with True assms show ?thesis
      by (cases "path = []")
         (simp_all add: StepDownloadGuestAdditions_Run_def get_driver_def get_ui_def
            Version_def GuestToolsIsoPath_def runDownload_def Put_def Let_def
            couldnt_detect_url_def split: prod.splits)
  qed
qed

theorem download_url_fallback_chain_witness:
  "fst (StepDownloadGuestAdditions_Run
          (example_env\<lparr>driverGuestToolsIsoPath := (\<lambda>h. Inr [])\<rparr>)
          example_download_step example_world) = Returned ActionHalt
   \<and> calls (snd (StepDownloadGuestAdditions_Run
          (example_env\<lparr>driverGuestToolsIsoPath := (\<lambda>h. Inr [])\<rparr>)
          example_download_step example_world)) = [VersionQuery, GuestToolsIsoPathQuery]
   \<and> written (snd (StepDownloadGuestAdditions_Run
          (example_env\<lparr>driverGuestToolsIsoPath := (\<lambda>h. Inr [])\<rparr>)
          example_download_step example_world)) = [''error'']
   \<and> bag (snd (StepDownloadGuestAdditions_Run
          (example_env\<lparr>driverGuestToolsIsoPath := (\<lambda>h. Inr [])\<rparr>)
          example_download_step example_world)) ''error''
       = Some (VError (''couldn't detect guest additions URL.'' @ [CHR 0x0A]
                       @ ''Please specify `guest_additions_url` manually''))
   \<and> (\<exists>d. calls (snd (StepDownloadGuestAdditions_Run
          (example_env\<lparr>driverGuestToolsIsoPath := (\<lambda>h. Inl ''no guest tools'')\<rparr>)
          example_download_step example_world))
            = [VersionQuery, GuestToolsIsoPathQuery, Download d]
          \<and> Url d = [''https://getutm.app/downloads/utm-guest-tools-latest.iso''])
   \<and> written (snd (StepDownloadGuestAdditions_Run
          (example_env\<lparr>driverGuestToolsIsoPath := (\<lambda>h. Inl ''no guest tools'')\<rparr>)
          example_download_step example_world)) = []"
proof -
  have a: "bag example_world ''driver'' = Some VDriver"
    and b: "bag example_world ''ui'' = Some VUi"
    by (simp_all add: example_world_def)
  have c: "StepDownloadGuestAdditions.GuestAdditionsMode example_download_step
             \<noteq> GuestAdditionsModeDisable (example_env\<lparr>driverGuestToolsIsoPath := f\<rparr>)" for f
    by (simp add: example_download_step_def example_env_def)
  have d: "driverVersion (example_env\<lparr>driverGuestToolsIsoPath := f\<rparr>) (calls example_world)
             = Inr ''4.6.4''" for f
    by (simp add: example_env_def)
  have r: "Render (example_env\<lparr>driverGuestToolsIsoPath := f\<rparr>)
             (GuestAdditionsURL example_download_step)
             (case map_of additionsVersionMap ''4.6.4'' of Some v \<Rightarrow> v | None \<Rightarrow> ''4.6.4'')
           = Inr []" for f
    by (simp add: example_env_def example_download_step_def)
  show ?thesis
    using download_url_fallback_chain [OF a b c d r, of "\<lambda>h. Inr []"]
      download_url_fallback_chain [OF a b c d r, of "\<lambda>h. Inl ''no guest tools''"]
    by (simp add: example_world_def)
qed

text \<open>
  C6. Under the same conditions, the checksum handed to the download: when the URL is the
  path that the driver's guest-tools query returned (the template rendered empty and the
  query succeeded, with a non-empty path), the \<^verbatim>\<open>Checksum\<close> field is empty, whatever
  \<^verbatim>\<open>GuestAdditionsSHA256\<close> is; otherwise (the template rendered a URL, or the query
  failed and the default URL is used) it is \<^verbatim>\<open>sha256:\<close> followed by
  \<^verbatim>\<open>GuestAdditionsSHA256\<close> when that is non-empty, and empty when it is empty. In each
  case the download is the last and only download call of the run.
\<close>

theorem download_checksum_policy:
  assumes "bag w ''driver'' = Some VDriver" and "bag w ''ui'' = Some VUi"
    and "StepDownloadGuestAdditions.GuestAdditionsMode s \<noteq> GuestAdditionsModeDisable e"
    and "driverVersion e (calls w) = Inr reported"
    and "Render e (GuestAdditionsURL s)
           (case map_of additionsVersionMap reported of Some v \<Rightarrow> v | None \<Rightarrow> reported)
         = Inr rendered"
  shows "(\<forall>path. rendered = [] \<and> path \<noteq> []
              \<and> driverGuestToolsIsoPath e (calls w @ [VersionQuery]) = Inr path
            \<longrightarrow> calls (snd (StepDownloadGuestAdditions_Run e s w))
                  = calls w @ [VersionQuery, GuestToolsIsoPathQuery,
                      Download \<lparr>Checksum = [], Description = ''Guest additions'',
                                ResultKey = ''guest_additions_path'',
                                TargetPath = GuestAdditionsTargetPath s,
                                Url = [path], Extension = ''iso''\<rparr>])
         \<and> (rendered \<noteq> []
            \<longrightarrow> calls (snd (StepDownloadGuestAdditions_Run e s w))
                  = calls w @ [VersionQuery,
                      Download \<lparr>Checksum = (if GuestAdditionsSHA256 s \<noteq> []
                                            then ''sha256:'' @ GuestAdditionsSHA256 s else []),
                                Description = ''Guest additions'',
                                ResultKey = ''guest_additions_path'',
                                TargetPath = GuestAdditionsTargetPath s,
                                Url = [rendered], Extension = ''iso''\<rparr>])
         \<and> (rendered = [] \<and> (\<exists>err. driverGuestToolsIsoPath e (calls w @ [VersionQuery]) = Inl err)
            \<longrightarrow> calls (snd (StepDownloadGuestAdditions_Run e s w))
                  = calls w @ [VersionQuery, GuestToolsIsoPathQuery,
                      Download \<lparr>Checksum = (if GuestAdditionsSHA256 s \<noteq> []
                                            then ''sha256:'' @ GuestAdditionsSHA256 s else []),
                                Description = ''Guest additions'',
                                ResultKey = ''guest_additions_path'',
                                TargetPath = GuestAdditionsTargetPath s,
                                Url = [''https://getutm.app/downloads/utm-guest-tools-latest.iso''],
                                Extension = ''iso''\<rparr>])"
proof (cases "rendered = []")
  case False
  with assms show ?thesis
    by (simp add: StepDownloadGuestAdditions_Run_def get_driver_def get_ui_def Version_def
          runDownload_def Let_def split: prod.splits)
next
  case True
  show ?thesis
  proof (cases "driverGuestToolsIsoPath e (calls w @ [VersionQuery])")
    case (Inl err)
    with True assms show ?thesis
      by (simp add: StepDownloadGuestAdditions_Run_def get_driver_def get_ui_def Version_def
            GuestToolsIsoPath_def runDownload_def Let_def split: prod.splits)
  next
    case (Inr path)
    with True assms show ?thesis
      by (cases "path = []")
         (auto simp: StepDownloadGuestAdditions_Run_def get_driver_def get_ui_def
            Version_def GuestToolsIsoPath_def runDownload_def Put_def Let_def
            split: prod.splits)
  qed
qed

theorem download_checksum_policy_witness:
  "calls (snd (StepDownloadGuestAdditions_Run example_env example_download_step example_world))
     = [VersionQuery, GuestToolsIsoPathQuery,
        Download \<lparr>Checksum = [], Description = ''Guest additions'',
                  ResultKey = ''guest_additions_path'', TargetPath = ''/cache/tools.iso'',
                  Url = [''/Library/UTM/utm-guest-tools-latest.iso''], Extension = ''iso''\<rparr>]
   \<and> calls (snd (StepDownloadGuestAdditions_Run example_env
        (example_download_step\<lparr>GuestAdditionsURL := ''https://example.org/tools.iso''\<rparr>)
        example_world))
     = [VersionQuery,
        Download \<lparr>Checksum = ''sha256:0f3a'', Description = ''Guest additions'',
                  ResultKey = ''guest_additions_path'', TargetPath = ''/cache/tools.iso'',
                  Url = [''https://example.org/tools.iso''], Extension = ''iso''\<rparr>]"
proof -
  have a: "bag example_world ''driver'' = Some VDriver"
    and b: "bag example_world ''ui'' = Some VUi"
    by (simp_all add: example_world_def)
  have c: "StepDownloadGuestAdditions.GuestAdditionsMode (example_download_step\<lparr>GuestAdditionsURL := u\<rparr>)
             \<noteq> GuestAdditionsModeDisable example_env" for u
    by (simp add: example_download_step_def example_env_def)
  have d: "driverVersion example_env (calls example_world) = Inr ''4.6.4''"
    by (simp add: example_env_def)
  have r: "Render example_env (GuestAdditionsURL (example_download_step\<lparr>GuestAdditionsURL := u\<rparr>))
             (case map_of additionsVersionMap ''4.6.4'' of Some v \<Rightarrow> v | None \<Rightarrow> ''4.6.4'')
           = Inr u" for u
    by (simp add: example_env_def)
  have p: "driverGuestToolsIsoPath example_env (calls example_world @ [VersionQuery])
             = Inr ''/Library/UTM/utm-guest-tools-latest.iso''"
    by (simp add: example_env_def)
  have s0: "example_download_step\<lparr>GuestAdditionsURL := []\<rparr> = example_download_step"
    by (simp add: example_download_step_def)
  show ?thesis
    using download_checksum_policy [OF a b c d r, of "[]"]
      download_checksum_policy [OF a b c d r, of "''https://example.org/tools.iso''"] p
    by (simp add: s0 example_world_def) (simp add: example_download_step_def)
qed

section \<open>The ISO-attachment step\<close>

text \<open>
  \<^verbatim>\<open>diskUnmountCommands\<close> is a Go map from category to command. It is kept as an association
  list with one entry per key (\<open>AList.update\<close> replaces the entry of a key that is
  present and appends a new one otherwise); the order of the list has no meaning.
\<close>

record StepAttachISOs =
  AttachBootISO :: bool
  ISOInterface :: string
  GuestAdditionsMode :: string
  GuestAdditionsInterface :: string
  diskUnmountCommands :: "(string \<times> string list) list"

record diskToMount =
  category :: string
  isoPath :: string

text \<open>
  The regular expression \<^verbatim>\<open>[0-9a-fA-F-]{36}\<close> and \<^verbatim>\<open>FindStringSubmatch\<close>: the leftmost run
  of 36 characters of the class. The class is ASCII, so no byte of a multi-byte rune
  belongs to it.
\<close>

definition uuidChar :: "char \<Rightarrow> bool" where
  "uuidChar c \<longleftrightarrow> c \<in> set ''0123456789abcdefABCDEF-''"

fun FindUUID :: "string \<Rightarrow> string option" where
  "FindUUID [] = None"
| "FindUUID (c # cs) =
     (if 36 \<le> length (c # cs) \<and> list_all uuidChar (take 36 (c # cs))
      then Some (take 36 (c # cs)) else FindUUID cs)"

text \<open>The conversion of a path from the state bag to an absolute path; \<open>key\<close> is the name
  in the error message. \<open>Inl\<close> is the step's early return.\<close>

definition absolute ::
  "env \<Rightarrow> string \<Rightarrow> string \<Rightarrow> world \<Rightarrow> (outcome \<times> world) + string" where
  "absolute e key path w =
     (if \<not> IsAbs e path then
        (case Abs e path of
           Inl err \<Rightarrow>
             Inl (Returned ActionHalt,
                  Put ''error''
                    (VError (''error converting '' @ key @ '' to absolute path: '' @ err)) w)
         | Inr absPath \<Rightarrow> Inr absPath)
      else Inr path)"

text \<open>The first part of \<^verbatim>\<open>Run\<close>: the list \<^verbatim>\<open>disksToMount\<close>, in the order boot ISO,
  cd_files, guest additions.\<close>

definition bootDisk :: "env \<Rightarrow> StepAttachISOs \<Rightarrow> world \<Rightarrow> (outcome \<times> world) + diskToMount list" where
  "bootDisk e s w =
     (if AttachBootISO s then
        (case get_string w ''iso_path'' of
           None \<Rightarrow> Inl (Panicked, w)
         | Some path \<Rightarrow>
             (case absolute e ''iso_path'' path w of
                Inl stop \<Rightarrow> Inl stop
              | Inr p \<Rightarrow> Inr [\<lparr>category = ''boot_iso'', isoPath = p\<rparr>]))
      else Inr [])"

definition cdFilesDisk :: "env \<Rightarrow> world \<Rightarrow> (outcome \<times> world) + diskToMount list" where
  "cdFilesDisk e w =
     (case GetOk w ''cd_path'' of
        None \<Rightarrow> Inr []
      | Some (VString cdFilesPath) \<Rightarrow>
          (case absolute e ''cd_path'' cdFilesPath w of
             Inl stop \<Rightarrow> Inl stop
           | Inr p \<Rightarrow> Inr [\<lparr>category = ''cd_files'', isoPath = p\<rparr>])
      | Some _ \<Rightarrow> Inl (Panicked, w))"

definition guestAdditionsDisk ::
  "env \<Rightarrow> StepAttachISOs \<Rightarrow> world \<Rightarrow> (outcome \<times> world) + diskToMount list" where
  "guestAdditionsDisk e s w =
     (if StepAttachISOs.GuestAdditionsMode s \<noteq> GuestAdditionsModeAttach e then Inr []
      else
        (case get_string w ''guest_additions_path'' of
           None \<Rightarrow> Inl (Panicked, w)
         | Some guestAdditionsPath \<Rightarrow>
             (case absolute e ''guest_additions_path'' guestAdditionsPath w of
                Inl stop \<Rightarrow> Inl stop
              | Inr p \<Rightarrow> Inr [\<lparr>category = ''guest_additions'', isoPath = p\<rparr>])))"

definition buildDisksToMount ::
  "env \<Rightarrow> StepAttachISOs \<Rightarrow> world \<Rightarrow> (outcome \<times> world) + diskToMount list" where
  "buildDisksToMount e s w =
     (case bootDisk e s w of
        Inl stop \<Rightarrow> Inl stop
      | Inr boot \<Rightarrow>
          (case cdFilesDisk e w of
             Inl stop \<Rightarrow> Inl stop
           | Inr cd \<Rightarrow>
               (case guestAdditionsDisk e s w of
                  Inl stop \<Rightarrow> Inl stop
                | Inr ga \<Rightarrow> Inr (boot @ cd @ ga))))"

text \<open>The body of the loop over \<^verbatim>\<open>disksToMount\<close>. First the command: symlink resolution,
  the controller of the category, its enum code.\<close>

definition controllerName :: "StepAttachISOs \<Rightarrow> string \<Rightarrow> string" where
  "controllerName s diskCategory =
     (if diskCategory = ''boot_iso'' then ISOInterface s
      else if diskCategory = ''guest_additions'' then GuestAdditionsInterface s
      else if diskCategory = ''cd_files'' then ''usb''
      else [])"

definition attachCommand ::
  "env \<Rightarrow> StepAttachISOs \<Rightarrow> string \<Rightarrow> diskToMount \<Rightarrow> string + string list" where
  "attachCommand e s vmId disk =
     (case EvalSymlinks e (isoPath disk) of
        Inl err \<Rightarrow> Inl (''error resolving symlink for ISO: '' @ err)
      | Inr resolvedIsoPath \<Rightarrow>
          (case GetControllerEnumCode e (controllerName s (category disk)) of
             Inl err \<Rightarrow> Inl err
           | Inr controllerEnumCode \<Rightarrow>
               Inr [''attach_iso.applescript'', vmId,
                    ''--interface'', controllerEnumCode,
                    ''--source'', resolvedIsoPath]))"

text \<open>One iteration: \<open>Inl\<close> is the halt, with the error put into the state bag; \<open>Inr\<close>
  carries the unmount command to record.\<close>

definition attachOne ::
  "env \<Rightarrow> StepAttachISOs \<Rightarrow> string \<Rightarrow> diskToMount \<Rightarrow> world \<Rightarrow> world + (string list \<times> world)" where
  "attachOne e s vmId disk w =
     (case attachCommand e s vmId disk of
        Inl msg \<Rightarrow> Inl (Put ''error'' (VError msg) w)
      | Inr command \<Rightarrow>
          (case ExecuteOsaScript e command w of
             (Inl err, w1) \<Rightarrow> Inl (Put ''error'' (VError (''error attaching ISO: '' @ err)) w1)
           | (Inr output, w1) \<Rightarrow>
               (case FindUUID output of
                  Some uuid \<Rightarrow> Inr ([''remove_drive.applescript'', vmId, uuid], w1)
                | None \<Rightarrow>
                    Inl (Put ''error''
                           (VError (''error extracting UUID from output: '' @ output)) w1))))"

fun attach_loop ::
  "env \<Rightarrow> StepAttachISOs \<Rightarrow> string \<Rightarrow> diskToMount list \<Rightarrow> (string \<times> string list) list
     \<Rightarrow> world \<Rightarrow> action \<times> (string \<times> string list) list \<times> world" where
  "attach_loop e s vmId [] cmds w = (ActionContinue, cmds, w)"
| "attach_loop e s vmId (disk # rest) cmds w =
     (case attachOne e s vmId disk w of
        Inl w' \<Rightarrow> (ActionHalt, cmds, w')
      | Inr (unmountCommand, w1) \<Rightarrow>
          attach_loop e s vmId rest (AList.update (category disk) unmountCommand cmds) w1)"

text \<open>\<^verbatim>\<open>Run\<close> returns the action, the step with its \<^verbatim>\<open>diskUnmountCommands\<close>, and the
  world.\<close>

definition StepAttachISOs_Run ::
  "env \<Rightarrow> StepAttachISOs \<Rightarrow> world \<Rightarrow> outcome \<times> StepAttachISOs \<times> world" where
  "StepAttachISOs_Run e s w =
     (case get_ui w of None \<Rightarrow> (Panicked, s, w) | Some _ \<Rightarrow>
       (let s0 = s\<lparr>diskUnmountCommands := []\<rparr> in
        case buildDisksToMount e s0 w of
          Inl (stop, w') \<Rightarrow> (stop, s0, w')
        | Inr disksToMount \<Rightarrow>
            if length disksToMount = 0 then (Returned ActionContinue, s0, w)
            else
              (case get_driver w of None \<Rightarrow> (Panicked, s0, w) | Some _ \<Rightarrow>
              (case get_string w ''vmId'' of None \<Rightarrow> (Panicked, s0, w) | Some vmId \<Rightarrow>
                (case attach_loop e s0 vmId disksToMount [] w of
                   (ActionHalt, cmds, w') \<Rightarrow>
                     (Returned ActionHalt, s0\<lparr>diskUnmountCommands := cmds\<rparr>, w')
                 | (ActionContinue, cmds, w') \<Rightarrow>
                     (Returned ActionContinue, s0\<lparr>diskUnmountCommands := cmds\<rparr>,
                      Put ''disk_unmount_commands'' (VCommands cmds) w'))))))"

text \<open>
  \<^verbatim>\<open>Cleanup\<close>. Go's \<^verbatim>\<open>range\<close> over a map visits every entry once, in an order that the
  runtime chooses: \<open>visit\<close> is that sequence of entries, a permutation of the map's
  entries (\<open>rangeOrder\<close>). A failed detach is logged and the loop goes on. The result
  \<open>None\<close> is the panic of \<^verbatim>\<open>state.Get("driver").(Driver)\<close>.
\<close>

definition rangeOrder :: "('k \<times> 'v) list \<Rightarrow> ('k \<times> 'v) list \<Rightarrow> bool" where
  "rangeOrder m visit \<longleftrightarrow> mset visit = mset m"

fun detach_loop :: "env \<Rightarrow> (string \<times> string list) list \<Rightarrow> world \<Rightarrow> world" where
  "detach_loop e [] w = w"
| "detach_loop e ((k, command) # rest) w =
     (case ExecuteOsaScript e command w of (_, w1) \<Rightarrow> detach_loop e rest w1)"

definition StepAttachISOs_Cleanup ::
  "env \<Rightarrow> StepAttachISOs \<Rightarrow> (string \<times> string list) list \<Rightarrow> world \<Rightarrow> world option" where
  "StepAttachISOs_Cleanup e s visit w =
     (if length (diskUnmountCommands s) = 0 then Some w
      else
        (case get_driver w of None \<Rightarrow> None | Some _ \<Rightarrow>
          (case GetOk w ''detached_isos'' of
             Some _ \<Rightarrow> Some w
           | None \<Rightarrow> Some (detach_loop e visit w))))"

definition example_attach_step :: StepAttachISOs where
  "example_attach_step =
     \<lparr>AttachBootISO = True, ISOInterface = ''virtio'', GuestAdditionsMode = ''attach'',
      GuestAdditionsInterface = ''usb'', diskUnmountCommands = []\<rparr>"

definition example_attach_world :: world where
  "example_attach_world =
     \<lparr>bag = [''driver'' \<mapsto> VDriver, ''ui'' \<mapsto> VUi, ''vmId'' \<mapsto> VString ''test-vm-id'',
             ''iso_path'' \<mapsto> VString ''/iso/install.iso'',
             ''cd_path'' \<mapsto> VString ''/tmp/cd_files.iso'',
             ''guest_additions_path'' \<mapsto> VString ''/cache/tools.iso''],
      written = [], calls = []\<rparr>"

text \<open>The candidates whose attachment succeeded (the driver call returned no error and its
  output held an identifier), up to the first failure, each with its unmount command.\<close>

fun attachedPrefix ::
  "env \<Rightarrow> StepAttachISOs \<Rightarrow> string \<Rightarrow> diskToMount list \<Rightarrow> world
     \<Rightarrow> (diskToMount \<times> string list) list" where
  "attachedPrefix e s vmId [] w = []"
| "attachedPrefix e s vmId (disk # rest) w =
     (case attachOne e s vmId disk w of
        Inl _ \<Rightarrow> []
      | Inr (unmountCommand, w1) \<Rightarrow> (disk, unmountCommand) # attachedPrefix e s vmId rest w1)"

text \<open>
  For the statements below. \<open>attachCalls\<close> are the driver calls made for a list of
  candidates that are all processed: one per candidate whose command could be built.
  \<open>attachOutput\<close> is the driver's answer to a candidate's attach call when the log of
  calls is \<open>h\<close> (\<open>None\<close> when the command cannot be built or the driver returns an error),
  and the attachment of a candidate succeeds (\<open>attachOk\<close>) when there is such an answer
  and \<open>FindUUID\<close> finds an identifier in it.
\<close>

definition attachCalls :: "env \<Rightarrow> StepAttachISOs \<Rightarrow> string \<Rightarrow> diskToMount list \<Rightarrow> call list" where
  "attachCalls e s vmId disks =
     concat (map (\<lambda>disk. case attachCommand e s vmId disk of
                            Inl _ \<Rightarrow> [] | Inr command \<Rightarrow> [OsaScript command]) disks)"

definition attachOutput ::
  "env \<Rightarrow> StepAttachISOs \<Rightarrow> string \<Rightarrow> call list \<Rightarrow> diskToMount \<Rightarrow> string option" where
  "attachOutput e s vmId h disk =
     (case attachCommand e s vmId disk of
        Inl _ \<Rightarrow> None
      | Inr command \<Rightarrow> (case osa e h command of Inl _ \<Rightarrow> None | Inr output \<Rightarrow> Some output))"

definition attachOk ::
  "env \<Rightarrow> StepAttachISOs \<Rightarrow> string \<Rightarrow> call list \<Rightarrow> diskToMount \<Rightarrow> bool" where
  "attachOk e s vmId h disk \<longleftrightarrow>
     (case attachOutput e s vmId h disk of
        None \<Rightarrow> False
      | Some output \<Rightarrow> FindUUID output \<noteq> None)"

section \<open>Properties of the ISO-attachment step\<close>

lemma update_fresh: "k \<notin> fst ` set al \<Longrightarrow> AList.update k v al = al @ [(k, v)]"
  by (induction al) auto

lemma buildDisksToMount_categories:
  assumes "buildDisksToMount e s w = Inr disks"
  shows "map category disks =
           (if AttachBootISO s then [''boot_iso''] else [])
           @ (if bag w ''cd_path'' \<noteq> None then [''cd_files''] else [])
           @ (if StepAttachISOs.GuestAdditionsMode s = GuestAdditionsModeAttach e
              then [''guest_additions''] else [])"
  using assms
  by (auto simp: buildDisksToMount_def bootDisk_def cdFilesDisk_def guestAdditionsDisk_def
        GetOk_def split: sum.splits option.splits val.splits if_splits)

lemma buildDisksToMount_distinct:
  assumes "buildDisksToMount e s w = Inr disks"
  shows "distinct (map category disks)"
  by (simp add: buildDisksToMount_categories [OF assms])

lemma attachOne_Inr:
  assumes "attachOne e s vmId disk w = Inr (u, w1)"
  shows "\<exists>command output uuid.
           attachCommand e s vmId disk = Inr command
           \<and> osa e (calls w) command = Inr output
           \<and> FindUUID output = Some uuid
           \<and> u = [''remove_drive.applescript'', vmId, uuid]
           \<and> w1 = w\<lparr>calls := calls w @ [OsaScript command]\<rparr>"
  using assms
  by (auto simp: attachOne_def ExecuteOsaScript_def split: sum.splits option.splits)

lemma attachOne_Inl:
  assumes "attachOne e s vmId disk w = Inl w'"
  shows "written w' = written w @ [''error'']
         \<and> (\<exists>msg. bag w' = (bag w)(''error'' \<mapsto> VError msg))
         \<and> (case attachCommand e s vmId disk of
               Inl _ \<Rightarrow> calls w' = calls w
             | Inr command \<Rightarrow> calls w' = calls w @ [OsaScript command])"
  using assms
  by (auto simp: attachOne_def ExecuteOsaScript_def Put_def split: sum.splits option.splits)

text \<open>The loop records exactly the unmount commands of the attached prefix.\<close>

lemma attach_loop_cmds:
  "fst (snd (attach_loop e s vmId disks cmds w)) =
     fold (\<lambda>(d, u). AList.update (category d) u) (attachedPrefix e s vmId disks w) cmds"
  by (induction disks arbitrary: cmds w) (auto split: sum.splits)

lemma fold_update_fresh:
  assumes "distinct (map (\<lambda>p. category (fst p)) ps)"
    and "\<forall>p \<in> set ps. category (fst p) \<notin> fst ` set cmds"
  shows "fold (\<lambda>(d, u). AList.update (category d) u) ps cmds =
           cmds @ map (\<lambda>(d, u). (category d, u)) ps"
  using assms
proof (induction ps arbitrary: cmds)
  case Nil
  then show ?case by simp
next
  case (Cons p ps)
  obtain d u where p: "p = (d, u)" by (cases p)
  have fresh: "category d \<notin> fst ` set cmds" using Cons.prems(2) p by auto
  have "\<forall>q \<in> set ps. category (fst q) \<notin> fst ` set (cmds @ [(category d, u)])"
    using Cons.prems p by (auto simp: image_iff)
  moreover have "distinct (map (\<lambda>p. category (fst p)) ps)" using Cons.prems(1) by simp
  ultimately show ?case
    using Cons.IH [of "cmds @ [(category d, u)]"] p fresh by (simp add: update_fresh)
qed

lemma attachedPrefix_is_prefix:
  "map fst (attachedPrefix e s vmId disks w) =
     take (length (attachedPrefix e s vmId disks w)) disks"
  by (induction disks arbitrary: w) (auto split: sum.splits)

lemma attachedPrefix_length: "length (attachedPrefix e s vmId disks w) \<le> length disks"
  by (induction disks arbitrary: w) (auto split: sum.splits)


lemma attach_loop_cmds_distinct:
  assumes "distinct (map category disks)"
  shows "fst (snd (attach_loop e s vmId disks [] w)) =
           map (\<lambda>(d, u). (category d, u)) (attachedPrefix e s vmId disks w)"
proof -
  have "map (\<lambda>p. category (fst p)) (attachedPrefix e s vmId disks w) =
          map category (map fst (attachedPrefix e s vmId disks w))"
    by simp
  also have "\<dots> = take (length (attachedPrefix e s vmId disks w)) (map category disks)"
    by (simp only: attachedPrefix_is_prefix [of e s vmId disks w] take_map)
  finally have "distinct (map (\<lambda>p. category (fst p)) (attachedPrefix e s vmId disks w))"
    using assms by simp
  then show ?thesis
    by (simp add: attach_loop_cmds fold_update_fresh)
qed

text \<open>The driver calls of the loop: the attach commands of an initial segment of the
  candidates, in order; of all candidates when the loop runs to its end.\<close>

lemma attach_loop_calls:
  "\<exists>k cs. k \<le> length disks
     \<and> map (attachCommand e s vmId) (take k disks) = map Inr cs
     \<and> calls (snd (snd (attach_loop e s vmId disks cmds w))) = calls w @ map OsaScript cs
     \<and> (fst (attach_loop e s vmId disks cmds w) = ActionContinue \<longrightarrow> k = length disks)"
proof (induction disks arbitrary: cmds w)
  case Nil
  show ?case by simp
next
  case (Cons disk rest)
  show ?case
  proof (cases "attachOne e s vmId disk w")
    case (Inl w')
    show ?thesis
    proof (cases "attachCommand e s vmId disk")
      case l: (Inl msg)
      with attachOne_Inl [OF Inl] have "calls w' = calls w" by simp
      with Inl show ?thesis
        by (intro exI [of _ 0] exI [of _ "[]"]) simp
    next
      case r: (Inr command)
      with attachOne_Inl [OF Inl] have "calls w' = calls w @ [OsaScript command]" by simp
      with Inl r show ?thesis
        by (intro exI [of _ 1] exI [of _ "[command]"]) simp
    qed
  next
    case (Inr p)
    obtain u w1 where p: "p = (u, w1)" by (cases p)
    from attachOne_Inr [OF Inr [unfolded p]] obtain command where
      c: "attachCommand e s vmId disk = Inr command"
      and w1: "w1 = w\<lparr>calls := calls w @ [OsaScript command]\<rparr>" by blast
    from Cons.IH [of "AList.update (category disk) u cmds" w1]
    obtain k cs where k: "k \<le> length rest"
      and m: "map (attachCommand e s vmId) (take k rest) = map Inr cs"
      and cl: "calls (snd (snd (attach_loop e s vmId rest
                 (AList.update (category disk) u cmds) w1))) = calls w1 @ map OsaScript cs"
      and fin: "fst (attach_loop e s vmId rest (AList.update (category disk) u cmds) w1)
                  = ActionContinue \<longrightarrow> k = length rest"
      by blast
    show ?thesis
      using Inr p c w1 k m cl fin
      by (intro exI [of _ "Suc k"] exI [of _ "command # cs"]) simp
  qed
qed


text \<open>\<^verbatim>\<open>Run\<close> in terms of its loop, for a state bag with ui, driver and VM identifier and
  a non-empty list of candidates.\<close>

lemma Run_attach_loop:
  assumes "bag w ''ui'' = Some VUi" and "bag w ''driver'' = Some VDriver"
    and "bag w ''vmId'' = Some (VString vmId)"
    and "buildDisksToMount e (s\<lparr>diskUnmountCommands := []\<rparr>) w = Inr disks"
    and "disks \<noteq> []"
  shows "StepAttachISOs_Run e s w =
           (case attach_loop e (s\<lparr>diskUnmountCommands := []\<rparr>) vmId disks [] w of
              (a, cmds, w') \<Rightarrow>
                (Returned a, s\<lparr>diskUnmountCommands := cmds\<rparr>,
                 if a = ActionContinue then Put ''disk_unmount_commands'' (VCommands cmds) w'
                 else w'))"
  using assms
  by (auto simp: StepAttachISOs_Run_def get_ui_def get_driver_def get_string_def Let_def
        split: prod.splits action.splits)

lemma controllerName_reset [simp]:
  "controllerName (s\<lparr>diskUnmountCommands := x\<rparr>) c = controllerName s c"
  by (simp add: controllerName_def)

lemma attachCommand_reset [simp]:
  "attachCommand e (s\<lparr>diskUnmountCommands := x\<rparr>) vmId disk = attachCommand e s vmId disk"
  by (simp add: attachCommand_def cong: sum.case_cong)

lemma attachOne_reset [simp]:
  "attachOne e (s\<lparr>diskUnmountCommands := x\<rparr>) vmId disk w = attachOne e s vmId disk w"
  by (simp add: attachOne_def)

lemma attach_loop_reset [simp]:
  "attach_loop e (s\<lparr>diskUnmountCommands := x\<rparr>) vmId disks cmds w =
     attach_loop e s vmId disks cmds w"
  by (induction disks arbitrary: cmds w) (simp_all split: sum.splits)

lemma attachedPrefix_reset [simp]:
  "attachedPrefix e (s\<lparr>diskUnmountCommands := x\<rparr>) vmId disks w =
     attachedPrefix e s vmId disks w"
  by (induction disks arbitrary: w) (simp_all split: sum.splits)

lemma buildDisksToMount_reset [simp]:
  "buildDisksToMount e (s\<lparr>diskUnmountCommands := x\<rparr>) w = buildDisksToMount e s w"
  by (simp add: buildDisksToMount_def bootDisk_def guestAdditionsDisk_def
        cong: sum.case_cong if_cong)

lemma Run_no_disks:
  assumes "bag w ''ui'' = Some VUi" and "buildDisksToMount e s w = Inr []"
  shows "StepAttachISOs_Run e s w = (Returned ActionContinue, s\<lparr>diskUnmountCommands := []\<rparr>, w)"
  using assms by (simp add: StepAttachISOs_Run_def get_ui_def)

definition example_failing_env :: env where
  "example_failing_env = example_env\<lparr>osa := (\<lambda>h c. Inl ''execution error'')\<rparr>"

lemma attachCalls_Nil [simp]: "attachCalls e s vmId [] = []"
  by (simp add: attachCalls_def)

lemma attachCalls_Cons:
  "attachCalls e s vmId (disk # rest) = attachCalls e s vmId [disk] @ attachCalls e s vmId rest"
  by (simp add: attachCalls_def)

lemma attachCalls_append:
  "attachCalls e s vmId (xs @ ys) = attachCalls e s vmId xs @ attachCalls e s vmId ys"
  by (simp add: attachCalls_def)

lemma attachCalls_all_Inr:
  "map (attachCommand e s vmId) disks = map Inr cs \<Longrightarrow>
     attachCalls e s vmId disks = map OsaScript cs"
proof (induction disks arbitrary: cs)
  case Nil
  then show ?case by simp
next
  case (Cons d ds)
  then obtain c cs' where cs: "cs = c # cs'" by (cases cs) auto
  with Cons.prems have "attachCommand e s vmId d = Inr c"
    and "map (attachCommand e s vmId) ds = map Inr cs'" by auto
  with Cons.IH [of cs'] cs show ?case by (simp add: attachCalls_def)
qed

text \<open>A successful iteration records the unmount command and logs the call; a failed
  one puts the error and logs the call when the command could be built.\<close>

lemma attachOne_ok:
  assumes "attachOk e s vmId (calls w) disk"
  shows "\<exists>command output uuid.
           attachCommand e s vmId disk = Inr command
           \<and> attachOutput e s vmId (calls w) disk = Some output
           \<and> FindUUID output = Some uuid
           \<and> attachOne e s vmId disk w =
               Inr ([''remove_drive.applescript'', vmId, uuid],
                    w\<lparr>calls := calls w @ [OsaScript command]\<rparr>)"
  using assms
  by (auto simp: attachOk_def attachOutput_def attachOne_def ExecuteOsaScript_def
        split: sum.splits option.splits)

lemma attachOne_failed:
  assumes "\<not> attachOk e s vmId (calls w) disk"
  shows "\<exists>w'. attachOne e s vmId disk w = Inl w'
           \<and> calls w' = calls w @ attachCalls e s vmId [disk]
           \<and> written w' = written w @ [''error'']"
  using assms
  by (auto simp: attachOk_def attachOutput_def attachOne_def ExecuteOsaScript_def Put_def
        attachCalls_def split: sum.splits option.splits)

lemma attachCalls_ok:
  assumes "attachOk e s vmId h disk"
  shows "\<exists>command. attachCommand e s vmId disk = Inr command
           \<and> attachCalls e s vmId [disk] = [OsaScript command]"
  using assms
  by (auto simp: attachOk_def attachOutput_def attachCalls_def split: sum.splits option.splits)

text \<open>When the attachment of every candidate succeeds, the loop runs to its end, with one
  call per candidate.\<close>

lemma attach_loop_all_ok:
  assumes "\<forall>i<length disks.
             attachOk e s vmId (calls w @ attachCalls e s vmId (take i disks)) (disks ! i)"
  shows "fst (attach_loop e s vmId disks cmds w) = ActionContinue
         \<and> calls (snd (snd (attach_loop e s vmId disks cmds w)))
             = calls w @ attachCalls e s vmId disks
         \<and> (\<exists>cs. map (attachCommand e s vmId) disks = map Inr cs)"
  using assms
proof (induction disks arbitrary: cmds w)
  case Nil
  show ?case by simp
next
  case (Cons disk rest)
  from Cons.prems [rule_format, of 0] have ok: "attachOk e s vmId (calls w) disk" by simp
  from attachOne_ok [OF ok] obtain command u where
    c: "attachCommand e s vmId disk = Inr command"
    and one: "attachOne e s vmId disk w = Inr (u, w\<lparr>calls := calls w @ [OsaScript command]\<rparr>)"
    by blast
  let ?w1 = "w\<lparr>calls := calls w @ [OsaScript command]\<rparr>"
  have single: "attachCalls e s vmId [disk] = [OsaScript command]"
    using c by (simp add: attachCalls_def)
  have rest: "\<forall>i<length rest.
                attachOk e s vmId (calls ?w1 @ attachCalls e s vmId (take i rest)) (rest ! i)"
  proof (intro allI impI)
    fix i assume "i < length rest"
    then have "attachOk e s vmId
                 (calls w @ attachCalls e s vmId (take (Suc i) (disk # rest)))
                 ((disk # rest) ! Suc i)"
      using Cons.prems [rule_format, of "Suc i"] by simp
    then show "attachOk e s vmId (calls ?w1 @ attachCalls e s vmId (take i rest)) (rest ! i)"
      using single attachCalls_Cons [of e s vmId disk "take i rest"] by simp
  qed
  from Cons.IH [OF rest, of "AList.update (category disk) u cmds"]
  have ih: "fst (attach_loop e s vmId rest (AList.update (category disk) u cmds) ?w1)
              = ActionContinue"
    "calls (snd (snd (attach_loop e s vmId rest (AList.update (category disk) u cmds) ?w1)))
       = calls ?w1 @ attachCalls e s vmId rest"
    "\<exists>cs. map (attachCommand e s vmId) rest = map Inr cs"
    by auto
  from ih(3) obtain cs where cs: "map (attachCommand e s vmId) rest = map Inr cs" by blast
  have "map (attachCommand e s vmId) (disk # rest) = map Inr (command # cs)"
    using c cs by simp
  then have ex: "\<exists>cs. map (attachCommand e s vmId) (disk # rest) = map Inr cs" by blast
  show ?case
    using one ih(1,2) ex single attachCalls_Cons [of e s vmId disk rest] by simp
qed

text \<open>When the candidate at index \<open>i\<close> is the first whose attachment fails, the loop halts
  there: the calls are those of the candidates up to and including it, an error is put,
  and nothing is done for the later candidates.\<close>

lemma attach_loop_first_failure:
  assumes "i < length disks"
    and "\<forall>j<i. attachOk e s vmId (calls w @ attachCalls e s vmId (take j disks)) (disks ! j)"
    and "\<not> attachOk e s vmId (calls w @ attachCalls e s vmId (take i disks)) (disks ! i)"
  shows "fst (attach_loop e s vmId disks cmds w) = ActionHalt
         \<and> calls (snd (snd (attach_loop e s vmId disks cmds w)))
             = calls w @ attachCalls e s vmId (take (Suc i) disks)
         \<and> written (snd (snd (attach_loop e s vmId disks cmds w))) = written w @ [''error'']"
  using assms
proof (induction disks arbitrary: i cmds w)
  case Nil
  then show ?case by simp
next
  case (Cons disk rest)
  show ?case
  proof (cases i)
    case 0
    with Cons.prems(3) have "\<not> attachOk e s vmId (calls w) disk" by simp
    from attachOne_failed [OF this] 0 show ?thesis by auto
  next
    case (Suc i')
    from Cons.prems(2) [rule_format, of 0] Suc have ok: "attachOk e s vmId (calls w) disk"
      by simp
    from attachOne_ok [OF ok] obtain command u where
      c: "attachCommand e s vmId disk = Inr command"
      and one: "attachOne e s vmId disk w = Inr (u, w\<lparr>calls := calls w @ [OsaScript command]\<rparr>)"
      by blast
    let ?w1 = "w\<lparr>calls := calls w @ [OsaScript command]\<rparr>"
    have single: "attachCalls e s vmId [disk] = [OsaScript command]"
      using c by (simp add: attachCalls_def)
    have shift: "calls w @ attachCalls e s vmId (take (Suc j) (disk # rest))
                   = calls ?w1 @ attachCalls e s vmId (take j rest)" for j
      using single attachCalls_Cons [of e s vmId disk "take j rest"] by simp
    have i': "i' < length rest" using Cons.prems(1) Suc by simp
    have before: "\<forall>j<i'. attachOk e s vmId (calls ?w1 @ attachCalls e s vmId (take j rest))
                            (rest ! j)"
    proof (intro allI impI)
      fix j assume "j < i'"
      then have "Suc j < i" using Suc by simp
      from Cons.prems(2) [rule_format, OF this] show
        "attachOk e s vmId (calls ?w1 @ attachCalls e s vmId (take j rest)) (rest ! j)"
        using shift [of j] by simp
    qed
    have here: "\<not> attachOk e s vmId (calls ?w1 @ attachCalls e s vmId (take i' rest)) (rest ! i')"
      using Cons.prems(3) Suc shift [of i'] by simp
    from Cons.IH [OF i' before here, of "AList.update (category disk) u cmds"]
    show ?thesis using one Suc shift [of "Suc i'"] by simp
  qed
qed

text \<open>
  C1 (as amended). For a state bag with ui, driver and VM identifier, and candidate paths
  that could be made absolute: the candidates are the applicable categories in the order
  boot ISO, cd_files, guest additions. When the attachment of every candidate succeeds,
  the run returns continue and its driver calls are the attach commands of the
  candidates, exactly one per candidate, in that order. When the candidate at index \<open>i\<close> is
  the first whose attachment fails (symlink resolution, controller code, driver error or
  no identifier in the output), the run returns halt and puts an error; its driver calls
  are the attach commands of the candidates before \<open>i\<close>, in order, followed by the call for
  candidate \<open>i\<close> when its command could be built; nothing is called for later candidates.
\<close>

theorem attach_calls_follow_fixed_order:
  assumes "bag w ''ui'' = Some VUi" and "bag w ''driver'' = Some VDriver"
    and "bag w ''vmId'' = Some (VString vmId)"
    and "buildDisksToMount e s w = Inr disks"
  shows "map category disks =
           (if AttachBootISO s then [''boot_iso''] else [])
           @ (if bag w ''cd_path'' \<noteq> None then [''cd_files''] else [])
           @ (if StepAttachISOs.GuestAdditionsMode s = GuestAdditionsModeAttach e
              then [''guest_additions''] else [])
         \<and> ((\<forall>i<length disks.
                attachOk e s vmId (calls w @ attachCalls e s vmId (take i disks)) (disks ! i))
              \<longrightarrow> fst (StepAttachISOs_Run e s w) = Returned ActionContinue
                \<and> (\<exists>cs. map (attachCommand e s vmId) disks = map Inr cs
                      \<and> calls (snd (snd (StepAttachISOs_Run e s w)))
                          = calls w @ map OsaScript cs))
         \<and> (\<forall>i<length disks.
               (\<forall>j<i. attachOk e s vmId (calls w @ attachCalls e s vmId (take j disks))
                        (disks ! j))
               \<and> \<not> attachOk e s vmId (calls w @ attachCalls e s vmId (take i disks)) (disks ! i)
              \<longrightarrow> fst (StepAttachISOs_Run e s w) = Returned ActionHalt
                \<and> written (snd (snd (StepAttachISOs_Run e s w))) = written w @ [''error'']
                \<and> (\<exists>cs. map (attachCommand e s vmId) (take i disks) = map Inr cs
                      \<and> calls (snd (snd (StepAttachISOs_Run e s w)))
                          = calls w @ map OsaScript cs
                            @ (case attachCommand e s vmId (disks ! i) of
                                 Inl _ \<Rightarrow> [] | Inr command \<Rightarrow> [OsaScript command])))"
proof (intro conjI allI impI)
  show "map category disks =
           (if AttachBootISO s then [''boot_iso''] else [])
           @ (if bag w ''cd_path'' \<noteq> None then [''cd_files''] else [])
           @ (if StepAttachISOs.GuestAdditionsMode s = GuestAdditionsModeAttach e
              then [''guest_additions''] else [])"
    by (rule buildDisksToMount_categories [OF assms(4)])
next
  assume ok: "\<forall>i<length disks.
                attachOk e s vmId (calls w @ attachCalls e s vmId (take i disks)) (disks ! i)"
  show "fst (StepAttachISOs_Run e s w) = Returned ActionContinue"
  proof (cases "disks = []")
    case True
    with assms Run_no_disks [of w e s] show ?thesis by simp
  next
    case False
    from attach_loop_all_ok [OF ok, of "[]"]
    have "fst (attach_loop e s vmId disks [] w) = ActionContinue" by simp
    then show ?thesis
      using Run_attach_loop [OF assms(1-3) _ False, of e s] assms(4)
      by (simp split: prod.splits)
  qed
next
  assume ok: "\<forall>i<length disks.
                attachOk e s vmId (calls w @ attachCalls e s vmId (take i disks)) (disks ! i)"
  from attach_loop_all_ok [OF ok, of "[]"]
  have c: "calls (snd (snd (attach_loop e s vmId disks [] w)))
             = calls w @ attachCalls e s vmId disks"
    and "\<exists>cs. map (attachCommand e s vmId) disks = map Inr cs" by simp_all
  then obtain cs where cs: "map (attachCommand e s vmId) disks = map Inr cs" by blast
  have "calls (snd (snd (StepAttachISOs_Run e s w))) = calls w @ map OsaScript cs"
  proof (cases "disks = []")
    case True
    with assms Run_no_disks [of w e s] cs show ?thesis by simp
  next
    case False
    obtain a cmds w' where l: "attach_loop e s vmId disks [] w = (a, cmds, w')"
      by (cases "attach_loop e s vmId disks [] w") auto
    have "StepAttachISOs_Run e s w =
            (Returned a, s\<lparr>diskUnmountCommands := cmds\<rparr>,
             if a = ActionContinue then Put ''disk_unmount_commands'' (VCommands cmds) w'
             else w')"
      using Run_attach_loop [OF assms(1-3) _ False, of e s] assms(4) l by simp
    then show ?thesis
      using c l attachCalls_all_Inr [OF cs] by (simp add: Put_def)
  qed
  with cs show "\<exists>cs. map (attachCommand e s vmId) disks = map Inr cs
                  \<and> calls (snd (snd (StepAttachISOs_Run e s w))) = calls w @ map OsaScript cs"
    by blast
next
  fix i
  assume i: "i < length disks"
    and f: "(\<forall>j<i. attachOk e s vmId (calls w @ attachCalls e s vmId (take j disks)) (disks ! j))
            \<and> \<not> attachOk e s vmId (calls w @ attachCalls e s vmId (take i disks)) (disks ! i)"
  from i have ne: "disks \<noteq> []" by auto
  from attach_loop_first_failure [OF i conjunct1 [OF f] conjunct2 [OF f], of "[]"]
  have h: "fst (attach_loop e s vmId disks [] w) = ActionHalt"
    and c: "calls (snd (snd (attach_loop e s vmId disks [] w)))
              = calls w @ attachCalls e s vmId (take (Suc i) disks)"
    and wr: "written (snd (snd (attach_loop e s vmId disks [] w))) = written w @ [''error'']"
    by simp_all
  have run: "StepAttachISOs_Run e s w =
               (Returned ActionHalt,
                s\<lparr>diskUnmountCommands := fst (snd (attach_loop e s vmId disks [] w))\<rparr>,
                snd (snd (attach_loop e s vmId disks [] w)))"
    using Run_attach_loop [OF assms(1-3) _ ne, of e s] assms(4) h
    by (simp split: prod.splits)
  show "fst (StepAttachISOs_Run e s w) = Returned ActionHalt" using run by simp
  show "written (snd (snd (StepAttachISOs_Run e s w))) = written w @ [''error'']"
    using run wr by simp
  have okp: "\<forall>j<length (take i disks).
               attachOk e s vmId (calls w @ attachCalls e s vmId (take j (take i disks)))
                 (take i disks ! j)"
    using f i by (simp add: min_def)
  from attach_loop_all_ok [OF okp, of "[]"]
  obtain cs where cs: "map (attachCommand e s vmId) (take i disks) = map Inr cs" by blast
  have "take (Suc i) disks = take i disks @ [disks ! i]"
    using i by (simp add: take_Suc_conv_app_nth)
  then have "attachCalls e s vmId (take (Suc i) disks)
               = map OsaScript cs
                 @ (case attachCommand e s vmId (disks ! i) of
                      Inl _ \<Rightarrow> [] | Inr command \<Rightarrow> [OsaScript command])"
    using attachCalls_all_Inr [OF cs] by (simp add: attachCalls_append) (simp add: attachCalls_def)
  with run c cs
  show "\<exists>cs. map (attachCommand e s vmId) (take i disks) = map Inr cs
          \<and> calls (snd (snd (StepAttachISOs_Run e s w)))
              = calls w @ map OsaScript cs
                @ (case attachCommand e s vmId (disks ! i) of
                     Inl _ \<Rightarrow> [] | Inr command \<Rightarrow> [OsaScript command])"
    by auto
qed

definition example_second_fails_env :: env where
  "example_second_fails_env =
     example_env\<lparr>osa := (\<lambda>h c. if length h = 1 then Inl ''execution error''
                               else Inr ''7C5E9A2B-03F1-4D6A-8B1E-5A4F0C9D2E17'')\<rparr>"

theorem attach_calls_follow_fixed_order_witness:
  "fst (StepAttachISOs_Run example_env example_attach_step example_attach_world)
     = Returned ActionContinue
   \<and> calls (snd (snd (StepAttachISOs_Run example_env example_attach_step example_attach_world)))
     = [OsaScript [''attach_iso.applescript'', ''test-vm-id'', ''--interface'', ''virtio'',
                   ''--source'', ''/iso/install.iso''],
        OsaScript [''attach_iso.applescript'', ''test-vm-id'', ''--interface'', ''usb'',
                   ''--source'', ''/tmp/cd_files.iso''],
        OsaScript [''attach_iso.applescript'', ''test-vm-id'', ''--interface'', ''usb'',
                   ''--source'', ''/cache/tools.iso'']]
   \<and> fst (StepAttachISOs_Run example_second_fails_env example_attach_step example_attach_world)
     = Returned ActionHalt
   \<and> written (snd (snd (StepAttachISOs_Run example_second_fails_env example_attach_step
                          example_attach_world))) = [''error'']
   \<and> calls (snd (snd (StepAttachISOs_Run example_second_fails_env example_attach_step
                        example_attach_world)))
     = [OsaScript [''attach_iso.applescript'', ''test-vm-id'', ''--interface'', ''virtio'',
                   ''--source'', ''/iso/install.iso''],
        OsaScript [''attach_iso.applescript'', ''test-vm-id'', ''--interface'', ''usb'',
                   ''--source'', ''/tmp/cd_files.iso'']]"
proof -
  let ?disks = "[\<lparr>category = ''boot_iso'', isoPath = ''/iso/install.iso''\<rparr>,
                 \<lparr>category = ''cd_files'', isoPath = ''/tmp/cd_files.iso''\<rparr>,
                 \<lparr>category = ''guest_additions'', isoPath = ''/cache/tools.iso''\<rparr>]"
  let ?c1 = "[''attach_iso.applescript'', ''test-vm-id'', ''--interface'', ''virtio'',
              ''--source'', ''/iso/install.iso'']"
  let ?c2 = "[''attach_iso.applescript'', ''test-vm-id'', ''--interface'', ''usb'',
              ''--source'', ''/tmp/cd_files.iso'']"
  let ?c3 = "[''attach_iso.applescript'', ''test-vm-id'', ''--interface'', ''usb'',
              ''--source'', ''/cache/tools.iso'']"
  have a: "bag example_attach_world ''ui'' = Some VUi"
    and b: "bag example_attach_world ''driver'' = Some VDriver"
    and c: "bag example_attach_world ''vmId'' = Some (VString ''test-vm-id'')"
    by (simp_all add: example_attach_world_def)
  have d: "buildDisksToMount example_env example_attach_step example_attach_world = Inr ?disks"
    "buildDisksToMount example_second_fails_env example_attach_step example_attach_world
       = Inr ?disks"
    by (simp_all add: buildDisksToMount_def bootDisk_def cdFilesDisk_def guestAdditionsDisk_def
          absolute_def get_string_def GetOk_def example_env_def example_second_fails_env_def
          example_attach_step_def example_attach_world_def)
  have u: "FindUUID ''7C5E9A2B-03F1-4D6A-8B1E-5A4F0C9D2E17''
             = Some ''7C5E9A2B-03F1-4D6A-8B1E-5A4F0C9D2E17''"
    by code_simp
  have m: "attachCommand example_env example_attach_step ''test-vm-id'' (?disks ! 0) = Inr ?c1"
    "attachCommand example_env example_attach_step ''test-vm-id'' (?disks ! 1) = Inr ?c2"
    "attachCommand example_env example_attach_step ''test-vm-id'' (?disks ! 2) = Inr ?c3"
    "attachCommand example_second_fails_env example_attach_step ''test-vm-id'' (?disks ! 0)
       = Inr ?c1"
    "attachCommand example_second_fails_env example_attach_step ''test-vm-id'' (?disks ! 1)
       = Inr ?c2"
    by (simp_all add: attachCommand_def controllerName_def example_env_def
          example_second_fails_env_def example_attach_step_def)
  have ok: "\<forall>i<length ?disks.
              attachOk example_env example_attach_step ''test-vm-id''
                (calls example_attach_world
                   @ attachCalls example_env example_attach_step ''test-vm-id'' (take i ?disks))
                (?disks ! i)"
    using m(1-3) u
    by (simp add: eval_nat_numeral All_less_Suc attachOk_def attachOutput_def example_env_def)
  have first: "\<forall>j<1. attachOk example_second_fails_env example_attach_step ''test-vm-id''
                (calls example_attach_world
                   @ attachCalls example_second_fails_env example_attach_step ''test-vm-id''
                       (take j ?disks))
                (?disks ! j)"
    using m(4) u
    by (simp add: attachOk_def attachOutput_def example_second_fails_env_def
          example_attach_world_def)
  have second: "\<not> attachOk example_second_fails_env example_attach_step ''test-vm-id''
                (calls example_attach_world
                   @ attachCalls example_second_fails_env example_attach_step ''test-vm-id''
                       (take 1 ?disks))
                (?disks ! 1)"
    using m(4,5)
    by (simp add: attachOk_def attachOutput_def attachCalls_def example_second_fails_env_def
          example_attach_world_def)
  from attach_calls_follow_fixed_order [OF a b c d(1)] ok
  obtain cs where r1: "fst (StepAttachISOs_Run example_env example_attach_step
                         example_attach_world) = Returned ActionContinue"
    and cs: "map (attachCommand example_env example_attach_step ''test-vm-id'') ?disks
               = map Inr cs"
    and cl: "calls (snd (snd (StepAttachISOs_Run example_env example_attach_step
               example_attach_world))) = calls example_attach_world @ map OsaScript cs"
    by blast
  from cs m(1-3) have "cs = [?c1, ?c2, ?c3]" by auto
  with cl have r2: "calls (snd (snd (StepAttachISOs_Run example_env example_attach_step
                      example_attach_world))) = [OsaScript ?c1, OsaScript ?c2, OsaScript ?c3]"
    by (simp add: example_attach_world_def)
  have i: "1 < length ?disks" by simp
  from attach_calls_follow_fixed_order [OF a b c d(2)] i first second
  obtain cs' where r3: "fst (StepAttachISOs_Run example_second_fails_env example_attach_step
                          example_attach_world) = Returned ActionHalt"
    and r4: "written (snd (snd (StepAttachISOs_Run example_second_fails_env example_attach_step
               example_attach_world))) = written example_attach_world @ [''error'']"
    and cs': "map (attachCommand example_second_fails_env example_attach_step ''test-vm-id'')
                (take 1 ?disks) = map Inr cs'"
    and cl': "calls (snd (snd (StepAttachISOs_Run example_second_fails_env example_attach_step
                example_attach_world)))
              = calls example_attach_world @ map OsaScript cs'
                @ (case attachCommand example_second_fails_env example_attach_step
                          ''test-vm-id'' (?disks ! 1) of
                     Inl _ \<Rightarrow> [] | Inr command \<Rightarrow> [OsaScript command])"
    by blast
  from cs' m(4) have "cs' = [?c1]" by auto
  with cl' m(5) have r5: "calls (snd (snd (StepAttachISOs_Run example_second_fails_env
                            example_attach_step example_attach_world)))
                          = [OsaScript ?c1, OsaScript ?c2]"
    by (simp add: example_attach_world_def)
  from r4 have r4': "written (snd (snd (StepAttachISOs_Run example_second_fails_env
                       example_attach_step example_attach_world))) = [''error'']"
    by (simp add: example_attach_world_def)
  from r1 r2 r3 r4' r5 show ?thesis by simp
qed

text \<open>
  C1 as stated fails: with all three categories applicable and a driver whose first attach
  call returns an error, the run halts after that one call; the other two categories are
  never attached.
\<close>

theorem attach_all_three_counterexample:
  "AttachBootISO example_attach_step
   \<and> bag example_attach_world ''cd_path'' = Some (VString ''/tmp/cd_files.iso'')
   \<and> StepAttachISOs.GuestAdditionsMode example_attach_step
       = GuestAdditionsModeAttach example_failing_env
   \<and> fst (StepAttachISOs_Run example_failing_env example_attach_step example_attach_world)
       = Returned ActionHalt
   \<and> calls (snd (snd (StepAttachISOs_Run example_failing_env example_attach_step
                        example_attach_world)))
       = [OsaScript [''attach_iso.applescript'', ''test-vm-id'', ''--interface'', ''virtio'',
                     ''--source'', ''/iso/install.iso'']]"
  by code_simp

lemma detach_loop_calls:
  "detach_loop e visit w = w\<lparr>calls := calls w @ map (\<lambda>(k, command). OsaScript command) visit\<rparr>"
  by (induction visit arbitrary: w) (auto simp: ExecuteOsaScript_def)

definition example_recorded_step :: StepAttachISOs where
  "example_recorded_step =
     example_attach_step
       \<lparr>diskUnmountCommands :=
          [(''boot_iso'', [''remove_drive.applescript'', ''test-vm-id'',
                           ''7C5E9A2B-03F1-4D6A-8B1E-5A4F0C9D2E17'']),
           (''cd_files'', [''remove_drive.applescript'', ''test-vm-id'',
                           ''0B2D4F60-1A3C-4E5F-9A7B-C8D9E0F1A2B3''])]\<rparr>"

text \<open>
  C4. \<^verbatim>\<open>Cleanup\<close>: with no recorded unmount command it leaves the world unchanged (no
  driver call). With recorded commands, the driver in the state bag and the key
  \<^verbatim>\<open>detached_isos\<close> present, it leaves the world unchanged as well. With recorded
  commands, the driver in the state bag and no \<^verbatim>\<open>detached_isos\<close>, it returns after one
  driver call per recorded entry, in the order in which the map is visited, whatever the
  driver answers to each call (the environment is arbitrary, so every call may fail); the
  state bag is unchanged and nothing is put into it.
\<close>

theorem cleanup_detaches_each_recorded_category:
  "(diskUnmountCommands s = [] \<longrightarrow> StepAttachISOs_Cleanup e s visit w = Some w)
   \<and> (diskUnmountCommands s \<noteq> [] \<and> bag w ''driver'' = Some VDriver
        \<and> bag w ''detached_isos'' \<noteq> None
      \<longrightarrow> StepAttachISOs_Cleanup e s visit w = Some w)
   \<and> (diskUnmountCommands s \<noteq> [] \<and> bag w ''driver'' = Some VDriver
        \<and> bag w ''detached_isos'' = None \<and> rangeOrder (diskUnmountCommands s) visit
      \<longrightarrow> (\<exists>w'. StepAttachISOs_Cleanup e s visit w = Some w'
            \<and> bag w' = bag w \<and> written w' = written w
            \<and> calls w' = calls w @ map (\<lambda>(k, command). OsaScript command) visit
            \<and> mset (map fst visit) = mset (map fst (diskUnmountCommands s))
            \<and> mset (drop (length (calls w)) (calls w'))
                = image_mset (\<lambda>(k, command). OsaScript command)
                    (mset (diskUnmountCommands s))))"
proof (intro conjI impI)
  assume "diskUnmountCommands s = []"
  then show "StepAttachISOs_Cleanup e s visit w = Some w"
    by (simp add: StepAttachISOs_Cleanup_def)
next
  assume "diskUnmountCommands s \<noteq> [] \<and> bag w ''driver'' = Some VDriver
            \<and> bag w ''detached_isos'' \<noteq> None"
  then show "StepAttachISOs_Cleanup e s visit w = Some w"
    by (auto simp: StepAttachISOs_Cleanup_def get_driver_def GetOk_def)
next
  assume a: "diskUnmountCommands s \<noteq> [] \<and> bag w ''driver'' = Some VDriver
            \<and> bag w ''detached_isos'' = None \<and> rangeOrder (diskUnmountCommands s) visit"
  then have c: "StepAttachISOs_Cleanup e s visit w = Some (detach_loop e visit w)"
    by (simp add: StepAttachISOs_Cleanup_def get_driver_def GetOk_def)
  from a have m: "mset visit = mset (diskUnmountCommands s)" by (simp add: rangeOrder_def)
  have k: "mset (map fst visit) = mset (map fst (diskUnmountCommands s))"
    using m by (metis mset_map)
  have i: "mset (map (\<lambda>(k, command). OsaScript command) visit) =
             image_mset (\<lambda>(k, command). OsaScript command) (mset (diskUnmountCommands s))"
    using m by (metis mset_map)
  show "\<exists>w'. StepAttachISOs_Cleanup e s visit w = Some w'
            \<and> bag w' = bag w \<and> written w' = written w
            \<and> calls w' = calls w @ map (\<lambda>(k, command). OsaScript command) visit
            \<and> mset (map fst visit) = mset (map fst (diskUnmountCommands s))
            \<and> mset (drop (length (calls w)) (calls w'))
                = image_mset (\<lambda>(k, command). OsaScript command)
                    (mset (diskUnmountCommands s))"
    using c k i by (simp add: detach_loop_calls)
qed

theorem cleanup_detaches_each_recorded_category_witness:
  "StepAttachISOs_Cleanup example_failing_env example_attach_step [] example_attach_world
     = Some example_attach_world
   \<and> StepAttachISOs_Cleanup example_failing_env example_recorded_step
       (rev (diskUnmountCommands example_recorded_step))
       (example_attach_world\<lparr>bag := (bag example_attach_world)(''detached_isos'' \<mapsto> VOther)\<rparr>)
     = Some (example_attach_world\<lparr>bag := (bag example_attach_world)(''detached_isos'' \<mapsto> VOther)\<rparr>)
   \<and> (\<exists>w'. StepAttachISOs_Cleanup example_failing_env example_recorded_step
              (rev (diskUnmountCommands example_recorded_step)) example_attach_world = Some w'
          \<and> bag w' ''error'' = None \<and> written w' = []
          \<and> calls w' =
              [OsaScript [''remove_drive.applescript'', ''test-vm-id'',
                          ''0B2D4F60-1A3C-4E5F-9A7B-C8D9E0F1A2B3''],
               OsaScript [''remove_drive.applescript'', ''test-vm-id'',
                          ''7C5E9A2B-03F1-4D6A-8B1E-5A4F0C9D2E17'']])"
proof -
  let ?wd = "example_attach_world\<lparr>bag := (bag example_attach_world)(''detached_isos'' \<mapsto> VOther)\<rparr>"
  let ?visit = "rev (diskUnmountCommands example_recorded_step)"
  have n: "diskUnmountCommands example_attach_step = []"
    by (simp add: example_attach_step_def)
  have r: "diskUnmountCommands example_recorded_step \<noteq> []"
    by (simp add: example_recorded_step_def)
  have d: "bag example_attach_world ''driver'' = Some VDriver"
    "bag ?wd ''driver'' = Some VDriver"
    by (simp_all add: example_attach_world_def)
  have m: "bag ?wd ''detached_isos'' \<noteq> None" "bag example_attach_world ''detached_isos'' = None"
    by (simp_all add: example_attach_world_def)
  have o: "rangeOrder (diskUnmountCommands example_recorded_step) ?visit"
    by (simp add: rangeOrder_def)
  have 1: "StepAttachISOs_Cleanup example_failing_env example_attach_step [] example_attach_world
             = Some example_attach_world"
    using cleanup_detaches_each_recorded_category
            [of example_attach_step example_failing_env "[]" example_attach_world] n
    by blast
  have 2: "StepAttachISOs_Cleanup example_failing_env example_recorded_step ?visit ?wd = Some ?wd"
    using cleanup_detaches_each_recorded_category
            [of example_recorded_step example_failing_env ?visit ?wd] r d m
    by blast
  from cleanup_detaches_each_recorded_category
         [of example_recorded_step example_failing_env ?visit example_attach_world] r d m o
  obtain w' where w': "StepAttachISOs_Cleanup example_failing_env example_recorded_step ?visit
                         example_attach_world = Some w'"
    and b: "bag w' = bag example_attach_world" and wr: "written w' = written example_attach_world"
    and c: "calls w' = calls example_attach_world @ map (\<lambda>(k, command). OsaScript command) ?visit"
    by blast
  have 3: "bag w' ''error'' = None \<and> written w' = []
          \<and> calls w' =
              [OsaScript [''remove_drive.applescript'', ''test-vm-id'',
                          ''0B2D4F60-1A3C-4E5F-9A7B-C8D9E0F1A2B3''],
               OsaScript [''remove_drive.applescript'', ''test-vm-id'',
                          ''7C5E9A2B-03F1-4D6A-8B1E-5A4F0C9D2E17'']]"
    using b wr c by (simp add: example_attach_world_def example_recorded_step_def)
  from 1 2 w' 3 show ?thesis by blast
qed

section \<open>The identifier in the driver's output\<close>

text \<open>
  The spec's words, "a resource identifier conforming to the canonical UUID textual
  form": 36 characters, hexadecimal digits in groups of 8, 4, 4, 4 and 12, separated by
  hyphens. \<open>containsCanonicalUUID\<close> holds when such a token occurs somewhere in the text.
\<close>

definition hexDigit :: "char \<Rightarrow> bool" where
  "hexDigit c \<longleftrightarrow> c \<in> set ''0123456789abcdefABCDEF''"

definition canonicalUUID :: "string \<Rightarrow> bool" where
  "canonicalUUID t \<longleftrightarrow>
     length t = 36
     \<and> list_all (\<lambda>i. if i \<in> {8, 13, 18, 23} then t ! i = CHR ''-'' else hexDigit (t ! i))
         [0..<36]"

definition containsCanonicalUUID :: "string \<Rightarrow> bool" where
  "containsCanonicalUUID output \<longleftrightarrow>
     list_ex (\<lambda>i. canonicalUUID (take 36 (drop i output))) [0..<Suc (length output)]"

definition example_hyphen_env :: env where
  "example_hyphen_env = example_env\<lparr>osa := (\<lambda>h c. Inr (replicate 36 (CHR ''-'')))\<rparr>"

lemma FindUUID_None_iff:
  "FindUUID s = None \<longleftrightarrow>
     (\<forall>i. i + 36 \<le> length s \<longrightarrow> \<not> list_all uuidChar (take 36 (drop i s)))"
proof (induction s)
  case Nil
  show ?case by simp
next
  case (Cons c cs)
  have split: "(\<forall>i. i + 36 \<le> length (c # cs) \<longrightarrow> \<not> list_all uuidChar (take 36 (drop i (c # cs))))
      \<longleftrightarrow> (36 \<le> length (c # cs) \<longrightarrow> \<not> list_all uuidChar (take 36 (c # cs)))
          \<and> (\<forall>i. i + 36 \<le> length cs \<longrightarrow> \<not> list_all uuidChar (take 36 (drop i cs)))"
    (is "?L \<longleftrightarrow> ?H \<and> ?T")
  proof
    assume l: ?L
    have ?H using l [rule_format, of 0] by simp
    moreover have ?T
    proof (intro allI impI)
      fix i assume "i + 36 \<le> length cs"
      then show "\<not> list_all uuidChar (take 36 (drop i cs))"
        using l [rule_format, of "Suc i"] by simp
    qed
    ultimately show "?H \<and> ?T" ..
  next
    assume r: "?H \<and> ?T"
    show ?L
    proof (intro allI impI)
      fix i assume i: "i + 36 \<le> length (c # cs)"
      show "\<not> list_all uuidChar (take 36 (drop i (c # cs)))"
      proof (cases i)
        case 0
        with r i show ?thesis by simp
      next
        case (Suc j)
        with r i show ?thesis by simp
      qed
    qed
  qed
  show ?case
  proof (cases "36 \<le> length (c # cs) \<and> list_all uuidChar (take 36 (c # cs))")
    case True
    then have "FindUUID (c # cs) = Some (take 36 (c # cs))"
      by (simp only: FindUUID.simps if_True simp_thms)
    then have "FindUUID (c # cs) \<noteq> None" by simp
    with True show ?thesis unfolding split by blast
  next
    case False
    then have eq: "FindUUID (c # cs) = FindUUID cs"
      by (simp only: FindUUID.simps if_False simp_thms)
    have "FindUUID (c # cs) = None \<longleftrightarrow>
            (\<forall>i. i + 36 \<le> length cs \<longrightarrow> \<not> list_all uuidChar (take 36 (drop i cs)))"
      unfolding eq by (rule Cons.IH)
    with False show ?thesis unfolding split by blast
  qed
qed

lemma FindUUID_Some:
  assumes "FindUUID s = Some u"
  shows "\<exists>i. i + 36 \<le> length s \<and> u = take 36 (drop i s) \<and> list_all uuidChar u
           \<and> (\<forall>j<i. \<not> list_all uuidChar (take 36 (drop j s)))"
  using assms
proof (induction s)
  case Nil
  then show ?case by simp
next
  case (Cons c cs)
  show ?case
  proof (cases "36 \<le> length (c # cs) \<and> list_all uuidChar (take 36 (c # cs))")
    case True
    then have "FindUUID (c # cs) = Some (take 36 (c # cs))"
      by (simp only: FindUUID.simps if_True simp_thms)
    with Cons.prems have "u = take 36 (c # cs)" by simp
    with True show ?thesis by (intro exI [of _ 0]) simp
  next
    case False
    then have "FindUUID (c # cs) = FindUUID cs"
      by (simp only: FindUUID.simps if_False simp_thms)
    with Cons.prems have "FindUUID cs = Some u" by simp
    from Cons.IH [OF this] obtain i where i: "i + 36 \<le> length cs" "u = take 36 (drop i cs)"
      "list_all uuidChar u" "\<forall>j<i. \<not> list_all uuidChar (take 36 (drop j cs))" by blast
    have "\<forall>j<Suc i. \<not> list_all uuidChar (take 36 (drop j (c # cs)))"
    proof (intro allI impI)
      fix j assume j: "j < Suc i"
      show "\<not> list_all uuidChar (take 36 (drop j (c # cs)))"
      proof (cases j)
        case 0
        with False i(1) show ?thesis by simp
      next
        case (Suc j')
        with j i(4) show ?thesis by simp
      qed
    qed
    with i show ?thesis by (intro exI [of _ "Suc i"]) simp
  qed
qed

lemma hexDigit_uuidChar: "hexDigit c \<Longrightarrow> uuidChar c"
  by (auto simp: hexDigit_def uuidChar_def)

lemma canonicalUUID_uuidChars:
  assumes "canonicalUUID t"
  shows "length t = 36 \<and> list_all uuidChar t"
proof -
  from assms have len: "length t = 36"
    and all: "\<forall>i<36. if i \<in> {8, 13, 18, 23} then t ! i = CHR ''-'' else hexDigit (t ! i)"
    by (simp_all add: canonicalUUID_def list_all_iff)
  have "uuidChar (t ! i)" if "i < 36" for i
  proof (cases "i \<in> {8, 13, 18, 23}")
    case True
    with all that have "t ! i = CHR ''-''" by metis
    then show ?thesis by (simp add: uuidChar_def)
  next
    case False
    with all that have "hexDigit (t ! i)" by metis
    then show ?thesis by (rule hexDigit_uuidChar)
  qed
  with len show ?thesis by (simp add: list_all_length)
qed

lemma containsCanonicalUUID_run:
  assumes "containsCanonicalUUID output"
  shows "\<exists>i. i + 36 \<le> length output \<and> list_all uuidChar (take 36 (drop i output))"
proof -
  from assms obtain i where c: "canonicalUUID (take 36 (drop i output))"
    unfolding containsCanonicalUUID_def list_ex_iff by blast
  from canonicalUUID_uuidChars [OF c]
  have l: "length (take 36 (drop i output)) = 36"
    and a: "list_all uuidChar (take 36 (drop i output))" by auto
  from l have "i + 36 \<le> length output" by simp
  with a show ?thesis by blast
qed

lemma attachOne_no_identifier:
  assumes "attachCommand e s vmId disk = Inr command"
    and "attachOutput e s vmId (calls w) disk = Some output"
    and "FindUUID output = None"
  shows "attachOne e s vmId disk w =
           Inl (Put ''error'' (VError (''error extracting UUID from output: '' @ output))
                  (w\<lparr>calls := calls w @ [OsaScript command]\<rparr>))"
  using assms
  by (auto simp: attachOutput_def attachOne_def ExecuteOsaScript_def split: sum.splits)

text \<open>The world after the loop when the candidate at index \<open>i\<close> is the first to fail: the
  world in which the iteration for that candidate halted.\<close>

lemma attach_loop_first_failure_world:
  assumes "i < length disks"
    and "\<forall>j<i. attachOk e s vmId (calls w @ attachCalls e s vmId (take j disks)) (disks ! j)"
    and "attachOne e s vmId (disks ! i)
           (w\<lparr>calls := calls w @ attachCalls e s vmId (take i disks)\<rparr>) = Inl w'"
  shows "snd (snd (attach_loop e s vmId disks cmds w)) = w'"
  using assms
proof (induction disks arbitrary: i cmds w)
  case Nil
  then show ?case by simp
next
  case (Cons disk rest)
  show ?case
  proof (cases i)
    case 0
    with Cons.prems(3) show ?thesis by simp
  next
    case (Suc i')
    from Cons.prems(2) [rule_format, of 0] Suc have ok: "attachOk e s vmId (calls w) disk"
      by simp
    from attachOne_ok [OF ok] obtain command u where
      c: "attachCommand e s vmId disk = Inr command"
      and one: "attachOne e s vmId disk w = Inr (u, w\<lparr>calls := calls w @ [OsaScript command]\<rparr>)"
      by blast
    let ?w1 = "w\<lparr>calls := calls w @ [OsaScript command]\<rparr>"
    have single: "attachCalls e s vmId [disk] = [OsaScript command]"
      using c by (simp add: attachCalls_def)
    have shift: "calls w @ attachCalls e s vmId (take (Suc j) (disk # rest))
                   = calls ?w1 @ attachCalls e s vmId (take j rest)" for j
      using single attachCalls_Cons [of e s vmId disk "take j rest"] by simp
    have i': "i' < length rest" using Cons.prems(1) Suc by simp
    have before: "\<forall>j<i'. attachOk e s vmId (calls ?w1 @ attachCalls e s vmId (take j rest))
                            (rest ! j)"
    proof (intro allI impI)
      fix j assume "j < i'"
      then have "Suc j < i" using Suc by simp
      from Cons.prems(2) [rule_format, OF this] show
        "attachOk e s vmId (calls ?w1 @ attachCalls e s vmId (take j rest)) (rest ! j)"
        using shift [of j] by simp
    qed
    have "w\<lparr>calls := calls w @ attachCalls e s vmId (take i (disk # rest))\<rparr>
            = ?w1\<lparr>calls := calls ?w1 @ attachCalls e s vmId (take i' rest)\<rparr>"
      using Suc shift [of i'] by simp
    with Cons.prems(3) Suc
    have here: "attachOne e s vmId (rest ! i')
                  (?w1\<lparr>calls := calls ?w1 @ attachCalls e s vmId (take i' rest)\<rparr>) = Inl w'"
      by simp
    from Cons.IH [OF i' before here, of "AList.update (category disk) u cmds"]
    show ?thesis using one by simp
  qed
qed

text \<open>The attached prefix, candidate by candidate.\<close>

lemma attachedPrefix_nth:
  assumes "i < length disks"
    and "\<forall>j\<le>i. attachOk e s vmId (calls w @ attachCalls e s vmId (take j disks)) (disks ! j)"
  shows "i < length (attachedPrefix e s vmId disks w)
         \<and> (\<exists>output uuid.
               attachOutput e s vmId (calls w @ attachCalls e s vmId (take i disks)) (disks ! i)
                 = Some output
               \<and> FindUUID output = Some uuid
               \<and> attachedPrefix e s vmId disks w ! i
                   = (disks ! i, [''remove_drive.applescript'', vmId, uuid]))"
  using assms
proof (induction disks arbitrary: i w)
  case Nil
  then show ?case by simp
next
  case (Cons disk rest)
  from Cons.prems(2) [rule_format, of 0] have ok: "attachOk e s vmId (calls w) disk" by simp
  from attachOne_ok [OF ok] obtain command out uuid where
    c: "attachCommand e s vmId disk = Inr command"
    and o: "attachOutput e s vmId (calls w) disk = Some out"
    and f: "FindUUID out = Some uuid"
    and one: "attachOne e s vmId disk w =
                Inr ([''remove_drive.applescript'', vmId, uuid],
                     w\<lparr>calls := calls w @ [OsaScript command]\<rparr>)"
    by blast
  let ?w1 = "w\<lparr>calls := calls w @ [OsaScript command]\<rparr>"
  show ?case
  proof (cases i)
    case 0
    with one o f show ?thesis by simp
  next
    case (Suc i')
    have single: "attachCalls e s vmId [disk] = [OsaScript command]"
      using c by (simp add: attachCalls_def)
    have shift: "calls w @ attachCalls e s vmId (take (Suc j) (disk # rest))
                   = calls ?w1 @ attachCalls e s vmId (take j rest)" for j
      using single attachCalls_Cons [of e s vmId disk "take j rest"] by simp
    have i': "i' < length rest" using Cons.prems(1) Suc by simp
    have upto: "\<forall>j\<le>i'. attachOk e s vmId (calls ?w1 @ attachCalls e s vmId (take j rest))
                           (rest ! j)"
    proof (intro allI impI)
      fix j assume "j \<le> i'"
      then have "Suc j \<le> i" using Suc by simp
      from Cons.prems(2) [rule_format, OF this] show
        "attachOk e s vmId (calls ?w1 @ attachCalls e s vmId (take j rest)) (rest ! j)"
        using shift [of j] by simp
    qed
    from Cons.IH [OF i' upto] show ?thesis
      using one Suc shift [of i'] by simp
  qed
qed

lemma attachedPrefix_first_failure:
  assumes "i < length disks"
    and "\<forall>j<i. attachOk e s vmId (calls w @ attachCalls e s vmId (take j disks)) (disks ! j)"
    and "\<not> attachOk e s vmId (calls w @ attachCalls e s vmId (take i disks)) (disks ! i)"
  shows "length (attachedPrefix e s vmId disks w) = i"
  using assms
proof (induction disks arbitrary: i w)
  case Nil
  then show ?case by simp
next
  case (Cons disk rest)
  show ?case
  proof (cases i)
    case 0
    with Cons.prems(3) have "\<not> attachOk e s vmId (calls w) disk" by simp
    from attachOne_failed [OF this] 0 show ?thesis by auto
  next
    case (Suc i')
    from Cons.prems(2) [rule_format, of 0] Suc have ok: "attachOk e s vmId (calls w) disk"
      by simp
    from attachOne_ok [OF ok] obtain command u where
      c: "attachCommand e s vmId disk = Inr command"
      and one: "attachOne e s vmId disk w = Inr (u, w\<lparr>calls := calls w @ [OsaScript command]\<rparr>)"
      by blast
    let ?w1 = "w\<lparr>calls := calls w @ [OsaScript command]\<rparr>"
    have single: "attachCalls e s vmId [disk] = [OsaScript command]"
      using c by (simp add: attachCalls_def)
    have shift: "calls w @ attachCalls e s vmId (take (Suc j) (disk # rest))
                   = calls ?w1 @ attachCalls e s vmId (take j rest)" for j
      using single attachCalls_Cons [of e s vmId disk "take j rest"] by simp
    have i': "i' < length rest" using Cons.prems(1) Suc by simp
    have before: "\<forall>j<i'. attachOk e s vmId (calls ?w1 @ attachCalls e s vmId (take j rest))
                            (rest ! j)"
    proof (intro allI impI)
      fix j assume "j < i'"
      then have "Suc j < i" using Suc by simp
      from Cons.prems(2) [rule_format, OF this] show
        "attachOk e s vmId (calls ?w1 @ attachCalls e s vmId (take j rest)) (rest ! j)"
        using shift [of j] by simp
    qed
    have here: "\<not> attachOk e s vmId (calls ?w1 @ attachCalls e s vmId (take i' rest)) (rest ! i')"
      using Cons.prems(3) Suc shift [of i'] by simp
    from Cons.IH [OF i' before here] show ?thesis using one Suc by simp
  qed
qed


text \<open>The table that \<^verbatim>\<open>Run\<close> leaves in the step: one entry per attached candidate, in
  the order of the candidates.\<close>

lemma Run_table:
  assumes "bag w ''ui'' = Some VUi" and "bag w ''driver'' = Some VDriver"
    and "bag w ''vmId'' = Some (VString vmId)"
    and "buildDisksToMount e s w = Inr disks"
  shows "diskUnmountCommands (fst (snd (StepAttachISOs_Run e s w))) =
           map (\<lambda>(d, u). (category d, u)) (attachedPrefix e s vmId disks w)"
proof (cases "disks = []")
  case True
  with assms Run_no_disks [of w e s] show ?thesis by simp
next
  case False
  obtain a cmds w' where l: "attach_loop e s vmId disks [] w = (a, cmds, w')"
    by (cases "attach_loop e s vmId disks [] w") auto
  have "StepAttachISOs_Run e s w =
          (Returned a, s\<lparr>diskUnmountCommands := cmds\<rparr>,
           if a = ActionContinue then Put ''disk_unmount_commands'' (VCommands cmds) w'
           else w')"
    using Run_attach_loop [OF assms(1-3) _ False, of e s] assms(4) l by simp
  moreover have "cmds = map (\<lambda>(d, u). (category d, u)) (attachedPrefix e s vmId disks w)"
    using attach_loop_cmds_distinct [OF buildDisksToMount_distinct [OF assms(4)], of e s vmId w] l
    by simp
  ultimately show ?thesis by simp
qed

lemma Run_world:
  assumes "bag w ''ui'' = Some VUi" and "bag w ''driver'' = Some VDriver"
    and "bag w ''vmId'' = Some (VString vmId)"
    and "buildDisksToMount e s w = Inr disks" and "disks \<noteq> []"
  shows "fst (StepAttachISOs_Run e s w) = Returned (fst (attach_loop e s vmId disks [] w))"
    and "fst (attach_loop e s vmId disks [] w) = ActionHalt \<Longrightarrow>
           snd (snd (StepAttachISOs_Run e s w)) = snd (snd (attach_loop e s vmId disks [] w))"
    and "fst (attach_loop e s vmId disks [] w) = ActionContinue \<Longrightarrow>
           snd (snd (StepAttachISOs_Run e s w)) =
             Put ''disk_unmount_commands''
               (VCommands (fst (snd (attach_loop e s vmId disks [] w))))
               (snd (snd (attach_loop e s vmId disks [] w)))"
proof -
  obtain a cmds w' where l: "attach_loop e s vmId disks [] w = (a, cmds, w')"
    by (cases "attach_loop e s vmId disks [] w") auto
  have r: "StepAttachISOs_Run e s w =
          (Returned a, s\<lparr>diskUnmountCommands := cmds\<rparr>,
           if a = ActionContinue then Put ''disk_unmount_commands'' (VCommands cmds) w'
           else w')"
    using Run_attach_loop [OF assms(1-3) _ assms(5), of e s] assms(4) l by simp
  show "fst (StepAttachISOs_Run e s w) = Returned (fst (attach_loop e s vmId disks [] w))"
    using r l by simp
  show "fst (attach_loop e s vmId disks [] w) = ActionHalt \<Longrightarrow>
           snd (snd (StepAttachISOs_Run e s w)) = snd (snd (attach_loop e s vmId disks [] w))"
    using r l by simp
  show "fst (attach_loop e s vmId disks [] w) = ActionContinue \<Longrightarrow>
           snd (snd (StepAttachISOs_Run e s w)) =
             Put ''disk_unmount_commands''
               (VCommands (fst (snd (attach_loop e s vmId disks [] w))))
               (snd (snd (attach_loop e s vmId disks [] w)))"
    using r l by simp
qed

lemma table_lookup:
  assumes "distinct (map category disks)" and "i < length ps"
    and "map fst ps = take (length ps) disks"
  shows "map_of (map (\<lambda>(d, u). (category d, u)) ps) (category (disks ! i)) = Some (snd (ps ! i))"
proof -
  have z: "map (\<lambda>(d, u). (category d, u)) ps = zip (map category (map fst ps)) (map snd ps)"
    by (induction ps) auto
  have d: "distinct (map category (map fst ps))"
    using assms(1,3) by (simp add: take_map [symmetric] distinct_take)
  have "length (map fst ps) = length (take (length ps) disks)"
    using assms(3) by simp
  then have le: "length ps \<le> length disks" by simp
  have n: "map category (map fst ps) ! i = category (disks ! i)"
    using assms(2) le by (simp add: assms(3))
  from map_of_zip_nth [of "map category (map fst ps)" "map snd ps" i] d assms(2)
  have "map_of (zip (map category (map fst ps)) (map snd ps)) (map category (map fst ps) ! i)
          = Some (map snd ps ! i)" by simp
  with z n assms(2) show ?thesis by simp
qed

lemma table_no_entry:
  assumes "distinct (map category disks)" and "length ps \<le> i" and "i < length disks"
    and "map fst ps = take (length ps) disks"
  shows "map_of (map (\<lambda>(d, u). (category d, u)) ps) (category (disks ! i)) = None"
proof -
  have "map fst (map (\<lambda>(d, u). (category d, u)) ps) = map category (map fst ps)"
    by (induction ps) auto
  then have k: "map fst (map (\<lambda>(d, u). (category d, u)) ps)
                  = map category (take (length ps) disks)"
    by (simp only: assms(4))
  have "category (disks ! i) \<notin> set (map category (take (length ps) disks))"
  proof
    assume "category (disks ! i) \<in> set (map category (take (length ps) disks))"
    then obtain j where j: "j < length ps" "j < length disks"
      and e: "category (disks ! j) = category (disks ! i)"
      by (auto simp: in_set_conv_nth)
    from assms(1) j(2) assms(3) e have "j = i"
      by (metis distinct_conv_nth length_map nth_map)
    with j(1) assms(2) show False by simp
  qed
  then have "category (disks ! i) \<notin> fst ` set (map (\<lambda>(d, u). (category d, u)) ps)"
    using k by (metis set_map)
  then show ?thesis by (simp add: map_of_eq_None_iff)
qed

lemma uuidChar_set: "uuidChar = (\<lambda>c. c \<in> set ''0123456789abcdefABCDEF-'')"
  by (simp add: uuidChar_def fun_eq_iff)

lemma FindUUID_leftmost:
  assumes "k + 36 \<le> length s" and "list_all uuidChar (take 36 (drop k s))"
    and "\<forall>k'<k. \<not> list_all uuidChar (take 36 (drop k' s))"
  shows "FindUUID s = Some (take 36 (drop k s))"
proof -
  from assms(1,2) have "FindUUID s \<noteq> None" by (auto simp: FindUUID_None_iff)
  then obtain u where u: "FindUUID s = Some u" by auto
  from FindUUID_Some [OF u] obtain k0 where k0: "k0 + 36 \<le> length s"
    "u = take 36 (drop k0 s)" "list_all uuidChar u"
    "\<forall>j<k0. \<not> list_all uuidChar (take 36 (drop j s))" by blast
  have "\<not> k0 < k" using assms(3) k0(2,3) by auto
  moreover have "\<not> k < k0" using k0(4) assms(2) by auto
  ultimately have "k0 = k" by simp
  with u k0(2) show ?thesis by simp
qed

lemma attachOutput_command:
  "attachOutput e s vmId h disk = Some out \<Longrightarrow> \<exists>command. attachCommand e s vmId disk = Inr command"
  by (auto simp: attachOutput_def split: sum.splits)

lemma Run_halts_without_identifier:
  assumes "bag w ''ui'' = Some VUi" and "bag w ''driver'' = Some VDriver"
    and "bag w ''vmId'' = Some (VString vmId)"
    and "buildDisksToMount e s w = Inr disks"
    and "i < length disks"
    and "\<forall>j<i. attachOk e s vmId (calls w @ attachCalls e s vmId (take j disks)) (disks ! j)"
    and "attachOutput e s vmId (calls w @ attachCalls e s vmId (take i disks)) (disks ! i)
           = Some out"
    and "FindUUID out = None"
  shows "fst (StepAttachISOs_Run e s w) = Returned ActionHalt
         \<and> written (snd (snd (StepAttachISOs_Run e s w))) = written w @ [''error'']
         \<and> bag (snd (snd (StepAttachISOs_Run e s w))) ''error''
             = Some (VError (''error extracting UUID from output: '' @ out))
         \<and> map_of (diskUnmountCommands (fst (snd (StepAttachISOs_Run e s w))))
               (category (disks ! i)) = None"
proof -
  let ?h = "calls w @ attachCalls e s vmId (take i disks)"
  let ?wi = "w\<lparr>calls := ?h\<rparr>"
  from assms(5) have ne: "disks \<noteq> []" by auto
  have bad: "\<not> attachOk e s vmId ?h (disks ! i)"
    using assms(7,8) by (simp add: attachOk_def)
  from attach_loop_first_failure [OF assms(5,6) bad, of "[]"]
  have h: "fst (attach_loop e s vmId disks [] w) = ActionHalt"
    and wr: "written (snd (snd (attach_loop e s vmId disks [] w))) = written w @ [''error'']"
    by simp_all
  from attachOutput_command [OF assms(7)] obtain command where
    c: "attachCommand e s vmId (disks ! i) = Inr command" by blast
  have "attachOne e s vmId (disks ! i) ?wi =
          Inl (Put ''error'' (VError (''error extracting UUID from output: '' @ out))
                 (?wi\<lparr>calls := calls ?wi @ [OsaScript command]\<rparr>))"
    using attachOne_no_identifier [of e s vmId "disks ! i" command ?wi out] c assms(7,8)
    by simp
  from attach_loop_first_failure_world [OF assms(5,6) this, of "[]"]
  have "bag (snd (snd (attach_loop e s vmId disks [] w))) ''error''
          = Some (VError (''error extracting UUID from output: '' @ out))"
    by (simp add: Put_def)
  moreover note Run_world(1,2) [OF assms(1-4) ne]
  moreover have "map_of (diskUnmountCommands (fst (snd (StepAttachISOs_Run e s w))))
                   (category (disks ! i)) = None"
    unfolding Run_table [OF assms(1-4)]
    using table_no_entry [OF buildDisksToMount_distinct [OF assms(4)] _ assms(5)
            attachedPrefix_is_prefix, of e s vmId w]
      attachedPrefix_first_failure [OF assms(5,6) bad]
    by simp
  ultimately show ?thesis using h wr by simp
qed

lemma Run_records_identifier:
  assumes "bag w ''ui'' = Some VUi" and "bag w ''driver'' = Some VDriver"
    and "bag w ''vmId'' = Some (VString vmId)"
    and "buildDisksToMount e s w = Inr disks"
    and "i < length disks"
    and "\<forall>j<i. attachOk e s vmId (calls w @ attachCalls e s vmId (take j disks)) (disks ! j)"
    and "attachOutput e s vmId (calls w @ attachCalls e s vmId (take i disks)) (disks ! i)
           = Some out"
    and "FindUUID out = Some uuid"
  shows "map_of (diskUnmountCommands (fst (snd (StepAttachISOs_Run e s w))))
           (category (disks ! i)) = Some [''remove_drive.applescript'', vmId, uuid]"
proof -
  have here: "attachOk e s vmId (calls w @ attachCalls e s vmId (take i disks)) (disks ! i)"
    using assms(7,8) by (simp add: attachOk_def)
  have upto: "\<forall>j\<le>i. attachOk e s vmId (calls w @ attachCalls e s vmId (take j disks))
                         (disks ! j)"
    using assms(6) here by (auto simp: le_less)
  from attachedPrefix_nth [OF assms(5) upto] assms(7,8)
  have n: "i < length (attachedPrefix e s vmId disks w)"
    and p: "attachedPrefix e s vmId disks w ! i
              = (disks ! i, [''remove_drive.applescript'', vmId, uuid])"
    by auto
  show ?thesis
    unfolding Run_table [OF assms(1-4)]
    using table_lookup [OF buildDisksToMount_distinct [OF assms(4)] n attachedPrefix_is_prefix]
      p by simp
qed

definition example_no_identifier_env :: env where
  "example_no_identifier_env =
     example_env\<lparr>osa := (\<lambda>h c. if length h = 1 then Inr ''drive added''
                               else Inr ''7C5E9A2B-03F1-4D6A-8B1E-5A4F0C9D2E17'')\<rparr>"

definition example_boot_step :: StepAttachISOs where
  "example_boot_step =
     \<lparr>AttachBootISO = True, ISOInterface = ''virtio'', GuestAdditionsMode = ''upload'',
      GuestAdditionsInterface = ''usb'', diskUnmountCommands = []\<rparr>"

definition example_boot_world :: world where
  "example_boot_world =
     \<lparr>bag = [''driver'' \<mapsto> VDriver, ''ui'' \<mapsto> VUi, ''vmId'' \<mapsto> VString ''test-vm-id'',
             ''iso_path'' \<mapsto> VString ''/iso/install.iso''],
      written = [], calls = []\<rparr>"

text \<open>
  C2 (as amended). Take an attachment of the step: a candidate at index \<open>i\<close> whose
  predecessors were all attached and whose attach call returned \<open>output\<close> without error.
  If \<open>output\<close> has no run of 36 consecutive characters that are hexadecimal digits or
  hyphens, the run returns halt, puts the error "error extracting UUID from output: "
  followed by \<open>output\<close>, and records no unmount command for the candidate's category.
  Otherwise the step records, under the candidate's category, the command
  \<^verbatim>\<open>remove_drive.applescript\<close>, VM identifier, leftmost such run. An output that contains a
  canonical UUID has such a run, so an unmount command is recorded for it.
\<close>

theorem attach_identifier_is_a_run_of_36:
  assumes "bag w ''ui'' = Some VUi" and "bag w ''driver'' = Some VDriver"
    and "bag w ''vmId'' = Some (VString vmId)"
    and "buildDisksToMount e s w = Inr disks"
    and "i < length disks"
    and "\<forall>j<i. attachOk e s vmId (calls w @ attachCalls e s vmId (take j disks)) (disks ! j)"
    and "attachOutput e s vmId (calls w @ attachCalls e s vmId (take i disks)) (disks ! i)
           = Some output"
  shows "((\<forall>k. k + 36 \<le> length output \<longrightarrow>
              \<not> list_all (\<lambda>c. c \<in> set ''0123456789abcdefABCDEF-'') (take 36 (drop k output)))
           \<longrightarrow> fst (StepAttachISOs_Run e s w) = Returned ActionHalt
             \<and> written (snd (snd (StepAttachISOs_Run e s w))) = written w @ [''error'']
             \<and> bag (snd (snd (StepAttachISOs_Run e s w))) ''error''
                 = Some (VError (''error extracting UUID from output: '' @ output))
             \<and> map_of (diskUnmountCommands (fst (snd (StepAttachISOs_Run e s w))))
                   (category (disks ! i)) = None)
         \<and> (\<forall>k. k + 36 \<le> length output
                \<and> list_all (\<lambda>c. c \<in> set ''0123456789abcdefABCDEF-'') (take 36 (drop k output))
                \<and> (\<forall>k'<k. \<not> list_all (\<lambda>c. c \<in> set ''0123456789abcdefABCDEF-'')
                                (take 36 (drop k' output)))
              \<longrightarrow> map_of (diskUnmountCommands (fst (snd (StepAttachISOs_Run e s w))))
                    (category (disks ! i))
                  = Some [''remove_drive.applescript'', vmId, take 36 (drop k output)])
         \<and> (containsCanonicalUUID output
              \<longrightarrow> (\<exists>uuid. map_of (diskUnmountCommands (fst (snd (StepAttachISOs_Run e s w))))
                            (category (disks ! i))
                          = Some [''remove_drive.applescript'', vmId, uuid]))"
proof (intro conjI allI impI)
  assume "\<forall>k. k + 36 \<le> length output \<longrightarrow>
              \<not> list_all (\<lambda>c. c \<in> set ''0123456789abcdefABCDEF-'') (take 36 (drop k output))"
  then have none: "FindUUID output = None"
    by (simp add: FindUUID_None_iff uuidChar_set)
  from Run_halts_without_identifier [OF assms none]
  show "fst (StepAttachISOs_Run e s w) = Returned ActionHalt"
    and "written (snd (snd (StepAttachISOs_Run e s w))) = written w @ [''error'']"
    and "bag (snd (snd (StepAttachISOs_Run e s w))) ''error''
           = Some (VError (''error extracting UUID from output: '' @ output))"
    and "map_of (diskUnmountCommands (fst (snd (StepAttachISOs_Run e s w))))
           (category (disks ! i)) = None"
    by simp_all
next
  fix k
  assume "k + 36 \<le> length output
          \<and> list_all (\<lambda>c. c \<in> set ''0123456789abcdefABCDEF-'') (take 36 (drop k output))
          \<and> (\<forall>k'<k. \<not> list_all (\<lambda>c. c \<in> set ''0123456789abcdefABCDEF-'')
                          (take 36 (drop k' output)))"
  then have "FindUUID output = Some (take 36 (drop k output))"
    using FindUUID_leftmost [of k "output"] by (simp add: uuidChar_set)
  from Run_records_identifier [OF assms this]
  show "map_of (diskUnmountCommands (fst (snd (StepAttachISOs_Run e s w))))
          (category (disks ! i))
        = Some [''remove_drive.applescript'', vmId, take 36 (drop k output)]" .
next
  assume "containsCanonicalUUID output"
  from containsCanonicalUUID_run [OF this] have "FindUUID output \<noteq> None"
    by (auto simp: FindUUID_None_iff)
  then obtain uuid where "FindUUID output = Some uuid" by auto
  from Run_records_identifier [OF assms this]
  show "\<exists>uuid. map_of (diskUnmountCommands (fst (snd (StepAttachISOs_Run e s w))))
                  (category (disks ! i))
                = Some [''remove_drive.applescript'', vmId, uuid]"
    by blast
qed

theorem attach_identifier_is_a_run_of_36_witness:
  "fst (StepAttachISOs_Run example_no_identifier_env example_attach_step example_attach_world)
     = Returned ActionHalt
   \<and> written (snd (snd (StepAttachISOs_Run example_no_identifier_env example_attach_step
                          example_attach_world))) = [''error'']
   \<and> bag (snd (snd (StepAttachISOs_Run example_no_identifier_env example_attach_step
                      example_attach_world))) ''error''
       = Some (VError ''error extracting UUID from output: drive added'')
   \<and> map_of (diskUnmountCommands (fst (snd (StepAttachISOs_Run example_no_identifier_env
                 example_attach_step example_attach_world)))) ''cd_files'' = None
   \<and> map_of (diskUnmountCommands (fst (snd (StepAttachISOs_Run example_no_identifier_env
                 example_attach_step example_attach_world)))) ''boot_iso''
       = Some [''remove_drive.applescript'', ''test-vm-id'',
               ''7C5E9A2B-03F1-4D6A-8B1E-5A4F0C9D2E17'']"
proof -
  let ?e = example_no_identifier_env
  let ?disks = "[\<lparr>category = ''boot_iso'', isoPath = ''/iso/install.iso''\<rparr>,
                 \<lparr>category = ''cd_files'', isoPath = ''/tmp/cd_files.iso''\<rparr>,
                 \<lparr>category = ''guest_additions'', isoPath = ''/cache/tools.iso''\<rparr>]"
  let ?c1 = "[''attach_iso.applescript'', ''test-vm-id'', ''--interface'', ''virtio'',
              ''--source'', ''/iso/install.iso'']"
  let ?c2 = "[''attach_iso.applescript'', ''test-vm-id'', ''--interface'', ''usb'',
              ''--source'', ''/tmp/cd_files.iso'']"
  let ?id = "''7C5E9A2B-03F1-4D6A-8B1E-5A4F0C9D2E17''"
  have a: "bag example_attach_world ''ui'' = Some VUi"
    and b: "bag example_attach_world ''driver'' = Some VDriver"
    and c: "bag example_attach_world ''vmId'' = Some (VString ''test-vm-id'')"
    by (simp_all add: example_attach_world_def)
  have d: "buildDisksToMount ?e example_attach_step example_attach_world = Inr ?disks"
    by (simp add: buildDisksToMount_def bootDisk_def cdFilesDisk_def guestAdditionsDisk_def
          absolute_def get_string_def GetOk_def example_env_def example_no_identifier_env_def
          example_attach_step_def example_attach_world_def)
  have u: "FindUUID ?id = Some ?id" by code_simp
  have m: "attachCommand ?e example_attach_step ''test-vm-id'' (?disks ! 0) = Inr ?c1"
    "attachCommand ?e example_attach_step ''test-vm-id'' (?disks ! 1) = Inr ?c2"
    by (simp_all add: attachCommand_def controllerName_def example_env_def
          example_no_identifier_env_def example_attach_step_def)
  have o0: "attachOutput ?e example_attach_step ''test-vm-id''
              (calls example_attach_world
                 @ attachCalls ?e example_attach_step ''test-vm-id'' (take 0 ?disks))
              (?disks ! 0) = Some ?id"
    using m(1)
    by (simp add: attachOutput_def example_no_identifier_env_def example_attach_world_def)
  have o1: "attachOutput ?e example_attach_step ''test-vm-id''
              (calls example_attach_world
                 @ attachCalls ?e example_attach_step ''test-vm-id'' (take 1 ?disks))
              (?disks ! 1) = Some ''drive added''"
    using m
    by (simp add: attachOutput_def attachCalls_def example_no_identifier_env_def
          example_attach_world_def)
  have p0: "\<forall>j<0. attachOk ?e example_attach_step ''test-vm-id''
              (calls example_attach_world
                 @ attachCalls ?e example_attach_step ''test-vm-id'' (take j ?disks))
              (?disks ! j)"
    by simp
  have p1: "\<forall>j<1. attachOk ?e example_attach_step ''test-vm-id''
              (calls example_attach_world
                 @ attachCalls ?e example_attach_step ''test-vm-id'' (take j ?disks))
              (?disks ! j)"
    using o0 u by (simp add: attachOk_def)
  have i0: "0 < length ?disks" and i1: "1 < length ?disks" by simp_all
  have norun: "\<forall>k. k + 36 \<le> length ''drive added'' \<longrightarrow>
                 \<not> list_all (\<lambda>c. c \<in> set ''0123456789abcdefABCDEF-'')
                     (take 36 (drop k ''drive added''))"
    by simp
  have run: "0 + 36 \<le> length ?id
             \<and> list_all (\<lambda>c. c \<in> set ''0123456789abcdefABCDEF-'') (take 36 (drop 0 ?id))
             \<and> (\<forall>k'<0. \<not> list_all (\<lambda>c. c \<in> set ''0123456789abcdefABCDEF-'')
                           (take 36 (drop k' ?id)))"
    by simp
  have halt: "fst (StepAttachISOs_Run ?e example_attach_step example_attach_world)
                = Returned ActionHalt
     \<and> written (snd (snd (StepAttachISOs_Run ?e example_attach_step example_attach_world)))
         = written example_attach_world @ [''error'']
     \<and> bag (snd (snd (StepAttachISOs_Run ?e example_attach_step example_attach_world)))
         ''error'' = Some (VError (''error extracting UUID from output: '' @ ''drive added''))
     \<and> map_of (diskUnmountCommands (fst (snd (StepAttachISOs_Run ?e example_attach_step
                  example_attach_world)))) (category (?disks ! 1)) = None"
    using attach_identifier_is_a_run_of_36 [OF a b c d i1 p1 o1] norun by blast
  have rec: "map_of (diskUnmountCommands (fst (snd (StepAttachISOs_Run ?e example_attach_step
                  example_attach_world)))) (category (?disks ! 0))
             = Some [''remove_drive.applescript'', ''test-vm-id'', take 36 (drop 0 ?id)]"
    using attach_identifier_is_a_run_of_36 [OF a b c d i0 p0 o0] run by blast
  from halt rec show ?thesis by (simp add: example_attach_world_def)
qed

text \<open>
  C2 as stated fails: a driver output of 36 hyphens holds no canonical UUID, yet the step
  takes it as the identifier, records the unmount command and continues without an error.
\<close>

theorem hyphens_accepted_counterexample:
  "attachOutput example_hyphen_env example_boot_step ''test-vm-id'' []
       \<lparr>category = ''boot_iso'', isoPath = ''/iso/install.iso''\<rparr>
     = Some (replicate 36 (CHR ''-''))
   \<and> \<not> containsCanonicalUUID (replicate 36 (CHR ''-''))
   \<and> fst (StepAttachISOs_Run example_hyphen_env example_boot_step example_boot_world)
       = Returned ActionContinue
   \<and> bag (snd (snd (StepAttachISOs_Run example_hyphen_env example_boot_step
                      example_boot_world))) ''error'' = None
   \<and> diskUnmountCommands (fst (snd (StepAttachISOs_Run example_hyphen_env example_boot_step
                                     example_boot_world)))
       = [(''boot_iso'', [''remove_drive.applescript'', ''test-vm-id'',
                          replicate 36 (CHR ''-'')])]"
  by code_simp









end
